theory Spec2Isabelle
  imports Complex_Main "HOL-Library.Multiset"
begin

section \<open>The Python built-ins that app.py calls\<close>

text \<open>
  The script is a single flow over a pandas table.  A Python string is modelled as a list of
  code points below 256, one \<open>char\<close> each; strings with higher code points are outside the
  model.  In that range \<open>str.isspace\<close> holds of the ASCII white space, of the four separators
  0x1C to 0x1F, of NEL (0x85) and of the no-break space (0xA0); \<open>str.isdecimal\<close> holds of the
  ten digits; \<open>str.isdigit\<close> holds of these and of the superscripts two, three and one
  (0xB2, 0xB3, 0xB9).
\<close>

definition whitespace_chars :: "char list" where
  "whitespace_chars =
     [CHR 0x09, CHR 0x0A, CHR 0x0B, CHR 0x0C, CHR 0x0D,
      CHR 0x1C, CHR 0x1D, CHR 0x1E, CHR 0x1F, CHR 0x20, CHR 0x85, CHR 0xA0]"

definition decimal_chars :: "char list" where
  "decimal_chars = ''0123456789''"

definition superscript_chars :: "char list" where
  "superscript_chars = [CHR 0xB2, CHR 0xB3, CHR 0xB9]"

definition digit_chars :: "char list" where
  "digit_chars = decimal_chars @ superscript_chars"

definition py_isspace :: "char \<Rightarrow> bool" where
  "py_isspace c = (c \<in> set whitespace_chars)"

definition py_isdecimal_char :: "char \<Rightarrow> bool" where
  "py_isdecimal_char c = (c \<in> set decimal_chars)"

definition py_isdigit_char :: "char \<Rightarrow> bool" where
  "py_isdigit_char c = (c \<in> set digit_chars)"

text \<open>\<open>s.strip()\<close>: leading and trailing white space removed.\<close>

definition strip :: "string \<Rightarrow> string" where
  "strip s = rev (dropWhile py_isspace (rev (dropWhile py_isspace s)))"

text \<open>\<open>s.isdigit()\<close>: at least one character, and every character a digit.\<close>

definition isdigit :: "string \<Rightarrow> bool" where
  "isdigit s = (s \<noteq> [] \<and> list_all py_isdigit_char s)"

text \<open>\<open>str(y)\<close> for an integer: the decimal numeral, with a minus sign below zero.\<close>

definition digit_char :: "nat \<Rightarrow> char" where
  "digit_char d = decimal_chars ! d"

fun str_nat :: "nat \<Rightarrow> string" where
  "str_nat n = (if n < 10 then [digit_char n] else str_nat (n div 10) @ [digit_char (n mod 10)])"

declare str_nat.simps [simp del]

definition py_str :: "int \<Rightarrow> string" where
  "py_str y = (if y < 0 then CHR ''-'' # str_nat (nat (- y)) else str_nat (nat y))"

text \<open>
  \<open>int(s)\<close> on a string, in base ten (line 46 applies it to the year column names).  Python
  first turns the white space above 0x7F into blanks and refuses every other character
  above 0x7E; then it skips blanks and the ASCII controls 0x09 to 0x0D (not 0x1C to 0x1F)
  at both ends, reads an optional sign, and wants decimal digits, with single underscores
  allowed between digits.  Anything else raises ValueError, here \<open>None\<close>.
\<close>

definition int_space_chars :: "char list" where
  "int_space_chars =
     [CHR 0x09, CHR 0x0A, CHR 0x0B, CHR 0x0C, CHR 0x0D, CHR 0x20, CHR 0x85, CHR 0xA0]"

definition int_space :: "char \<Rightarrow> bool" where
  "int_space c = (c \<in> set int_space_chars)"

fun no_double_underscore :: "string \<Rightarrow> bool" where
  "no_double_underscore (a # b # cs) =
     (\<not> (a = CHR ''_'' \<and> b = CHR ''_'') \<and> no_double_underscore (b # cs))"
| "no_double_underscore cs = True"

definition int_body_ok :: "string \<Rightarrow> bool" where
  "int_body_ok body =
     (body \<noteq> [] \<and> list_all (\<lambda>c. py_isdecimal_char c \<or> c = CHR ''_'') body \<and>
      py_isdecimal_char (hd body) \<and> py_isdecimal_char (last body) \<and>
      no_double_underscore body)"

definition digit_val :: "char \<Rightarrow> nat" where
  "digit_val c = of_char c - 48"

definition digits_val :: "string \<Rightarrow> nat" where
  "digits_val s = foldl (\<lambda>a c. 10 * a + digit_val c) 0 s"

definition year_col_int :: "string \<Rightarrow> int option" where
  "year_col_int s =
     (let t = rev (dropWhile int_space (rev (dropWhile int_space s)));
          neg = (t \<noteq> [] \<and> hd t = CHR ''-'');
          body = (if t \<noteq> [] \<and> (hd t = CHR ''-'' \<or> hd t = CHR ''+'') then tl t else t)
      in if int_body_ok body
         then Some ((if neg then - 1 else 1) * int (digits_val (filter py_isdecimal_char body)))
         else None)"

text \<open>Python's \<open>int\<close> of a float: truncation towards zero.\<close>

definition py_int :: "real \<Rightarrow> int" where
  "py_int x = (if 0 \<le> x then \<lfloor>x\<rfloor> else \<lceil>x\<rceil>)"

section \<open>The raw table and the schema detector (lines 14 to 32)\<close>

text \<open>
  A cell of the table as \<open>read_csv\<close> delivers it: a number, a string, or NaN (the missing
  marker).  Doubles are idealised as reals; NaN is never a \<open>CNum\<close>.  A row maps a column
  name to its cell; the script reads only columns whose presence it has checked.
\<close>

datatype cell = CNum real | CStr string | CNaN

type_synonym row = "string \<Rightarrow> cell"

record raw_table =
  columns :: "string list"
  rows :: "row list"

text \<open>Line 17: \<open>year_cols = [c for c in df_raw.columns if str(c).strip().isdigit()]\<close>.\<close>

definition year_cols :: "string list \<Rightarrow> string list" where
  "year_cols cols = filter (\<lambda>c. isdigit (strip c)) cols"

text \<open>Line 18: \<open>is_wide = len(year_cols) > 0\<close>.\<close>

definition is_wide :: "string list \<Rightarrow> bool" where
  "is_wide cols = (length (year_cols cols) > 0)"

text \<open>
  The spec's words for a year column: a column name that, after trimming white space,
  consists entirely of decimal digits.  Written out without the built-ins: the name is
  white space, then a non-empty block of decimal digits, then white space.
\<close>

definition spec_year_column :: "string \<Rightarrow> bool" where
  "spec_year_column c =
     (\<exists>l d r. c = l @ d @ r \<and> list_all py_isspace l \<and> list_all py_isspace r \<and>
        d \<noteq> [] \<and> list_all py_isdecimal_char d)"

text \<open>
  Lines 20 to 32: the required columns of the detected shape.  A missing column is a fatal
  error that shows the missing names and the first 30 columns found, and stops the run.
  The other errors of a run: the file cannot be read (\<open>IOError\<close>), \<open>int\<close> cannot read a year
  column name (\<open>IntValueError\<close>, line 46), no Year of a Long table is a number when the
  slider is set up (\<open>NaNYearError\<close>, line 49), the slider is given equal bounds
  (\<open>SliderError\<close>, line 54), no year column lies in
  the selected range (\<open>EmptyRangeWarning\<close>, line 62), and \<open>melt\<close> cannot name its two new
  columns (\<open>MeltError\<close>, see below).
\<close>

datatype error =
  IOError | SchemaError "string list" "string list" | IntValueError | NaNYearError
  | SliderError | EmptyRangeWarning | MeltError

definition needed :: "string list \<Rightarrow> string list" where
  "needed cols =
     (if is_wide cols then [''Country Name'', ''Indicator Name'']
      else [''Country Name'', ''Indicator Name'', ''Year'', ''Value''])"

definition validate :: "raw_table \<Rightarrow> error + unit" where
  "validate t =
     (let miss = filter (\<lambda>c. c \<notin> set (columns t)) (needed (columns t))
      in if miss \<noteq> [] then Inl (SchemaError miss (take 30 (columns t))) else Inr ())"

section \<open>The year slider (lines 45 to 54)\<close>

text \<open>
  \<open>pd.to_numeric(..., errors="coerce")\<close> on one cell: a number stays, NaN stays missing, a
  string goes through the library's parser \<open>pn\<close>, which answers \<open>None\<close> (NaN) for what it
  cannot read.  The parser is a parameter of the model.
\<close>

definition to_numeric :: "(string \<Rightarrow> real option) \<Rightarrow> cell \<Rightarrow> real option" where
  "to_numeric pn c = (case c of CNum x \<Rightarrow> Some x | CStr s \<Rightarrow> pn s | CNaN \<Rightarrow> None)"

text \<open>
  Lines 46 to 50: the bounds that the script computes for the slider.  For a Wide table
  they are the least and the greatest integer value of a year column; \<open>int\<close> raises on a
  name it cannot read.  For a Long table they are the least and the greatest number of the
  coerced Year column, NaN skipped, truncated by \<open>int\<close>; when no Year is a number the
  minimum is NaN and \<open>int\<close> raises.
\<close>

definition year_bounds :: "(string \<Rightarrow> real option) \<Rightarrow> raw_table \<Rightarrow> error + int \<times> int" where
  "year_bounds pn t =
     (if is_wide (columns t) then
        (let ys = List.map_filter year_col_int (year_cols (columns t))
         in if length ys \<noteq> length (year_cols (columns t)) then Inl IntValueError
            else Inr (Min (set ys), Max (set ys)))
      else
        (let ys = List.map_filter (\<lambda>r. to_numeric pn (r ''Year'')) (rows t)
         in if ys = [] then Inl NaNYearError
            else Inr (py_int (Min (set ys)), py_int (Max (set ys)))))"

text \<open>
  Lines 52 to 54: the slider is given the bounds and the default pair
  \<open>(max(1970, y_min), min(2015, y_max))\<close>.  The widget raises when its two bounds are equal.
  Of a slider that is shown the model keeps this much: the pair it hands back is ordered
  and lies between the least and the greatest of the four numbers it was given.
\<close>

definition slider :: "int \<times> int \<Rightarrow> error + unit" where
  "slider b = (if fst b = snd b then Inl SliderError else Inr ())"

definition slider_allows :: "int \<times> int \<Rightarrow> int \<times> int \<Rightarrow> bool" where
  "slider_allows b r =
     (let start_default = max 1970 (fst b);
          end_default = min 2015 (snd b);
          given = [fst b, snd b, start_default, end_default]
      in slider b = Inr () \<and>
         Min (set given) \<le> fst r \<and> fst r \<le> snd r \<and> snd r \<le> Max (set given))"

section \<open>Selection filter and reshaper (lines 57 to 80)\<close>

text \<open>
  The selection: the country and the indicator picked from the values of their columns,
  and the inclusive year range of the slider.  The widgets of lines 35 to 54 produce it;
  from here on the model takes it as an input of the run.
\<close>

record selection =
  country :: cell
  indicator :: cell
  yr :: "int \<times> int"

text \<open>Elementwise \<open>==\<close> of a column with the selected value: NaN equals nothing.\<close>

definition cell_eq :: "cell \<Rightarrow> cell \<Rightarrow> bool" where
  "cell_eq a b = (a \<noteq> CNaN \<and> a = b)"

text \<open>
  Line 57: the rows of the selected country and indicator, each with its index label
  (\<open>read_csv\<close> numbers the rows from 0, and a boolean mask keeps the labels).
\<close>

definition sub :: "raw_table \<Rightarrow> selection \<Rightarrow> (nat \<times> row) list" where
  "sub t sel =
     filter (\<lambda>(i, r). cell_eq (r ''Country Name'') (country sel) \<and>
                      cell_eq (r ''Indicator Name'') (indicator sel))
       (enumerate 0 (rows t))"

text \<open>
  A row of the long frame: its index label, Year, Value (\<open>None\<close> is NaN) and the carried
  identifier columns.  Before \<open>dropna\<close> the Year may be NaN (\<open>'y\<close> is \<open>real option\<close>);
  after it the Year is a number (\<open>'y\<close> is \<open>real\<close>).
\<close>

record 'y long_row =
  idx :: nat
  year :: 'y
  val :: "real option"
  ids :: "(string \<times> cell) list"

text \<open>Line 61: \<open>[str(y) for y in range(yr[0], yr[1] + 1) if str(y) in sub.columns]\<close>.\<close>

definition selected_year_cols :: "int \<times> int \<Rightarrow> string list \<Rightarrow> string list" where
  "selected_year_cols r cols =
     map py_str (filter (\<lambda>y. py_str y \<in> set cols) [fst r..snd r])"

text \<open>Line 67: \<open>id_vars = [c for c in sub.columns if c not in year_cols]\<close>.\<close>

definition id_vars :: "string list \<Rightarrow> string list" where
  "id_vars cols = filter (\<lambda>c. c \<notin> set (year_cols cols)) cols"

text \<open>
  Lines 66 to 71: \<open>melt\<close> stacks the value columns in the order given; under each it lists
  the rows of \<open>sub\<close> in their order, each with its identifier cells, the column name as
  Year and the cell as Value.  The result is numbered afresh from 0.
\<close>

definition melt ::
  "string list \<Rightarrow> string list \<Rightarrow> (nat \<times> row) list \<Rightarrow>
     (nat \<times> (string \<times> cell) list \<times> string \<times> cell) list" where
  "melt idv value_vars rs =
     enumerate 0
       (concat (map (\<lambda>v. map (\<lambda>(i, r). (map (\<lambda>c. (c, r c)) idv, v, r v)) rs) value_vars))"

text \<open>Lines 72 and 73: Year and Value of the melted frame coerced to numbers.\<close>

definition wide_frame ::
  "(string \<Rightarrow> real option) \<Rightarrow> raw_table \<Rightarrow> selection \<Rightarrow> string list \<Rightarrow>
     real option long_row list" where
  "wide_frame pn t sel value_vars =
     map (\<lambda>(i, idc, v, c).
            \<lparr>idx = i, year = to_numeric pn (CStr v), val = to_numeric pn c, ids = idc\<rparr>)
       (melt (id_vars (columns t)) value_vars (sub t sel))"

text \<open>
  Lines 75 to 78: the Long branch coerces Year and Value in place, then keeps the rows
  with \<open>yr[0] <= Year <= yr[1]\<close>; a comparison with NaN is false.
\<close>

definition in_range :: "int \<times> int \<Rightarrow> real option \<Rightarrow> bool" where
  "in_range r y = (case y of None \<Rightarrow> False | Some x \<Rightarrow> real_of_int (fst r) \<le> x \<and> x \<le> real_of_int (snd r))"

definition long_row_at ::
  "(string \<Rightarrow> real option) \<Rightarrow> raw_table \<Rightarrow> nat \<times> row \<Rightarrow> real option long_row" where
  "long_row_at pn t =
     (\<lambda>(i, r).
        \<lparr>idx = i, year = to_numeric pn (r ''Year''), val = to_numeric pn (r ''Value''),
         ids = map (\<lambda>c. (c, r c))
                 (filter (\<lambda>c. c \<noteq> ''Year'' \<and> c \<noteq> ''Value'') (columns t))\<rparr>)"

definition long_frame ::
  "(string \<Rightarrow> real option) \<Rightarrow> raw_table \<Rightarrow> selection \<Rightarrow> real option long_row list" where
  "long_frame pn t sel =
     filter (\<lambda>q. in_range (yr sel) (year q)) (map (long_row_at pn t) (sub t sel))"

text \<open>Line 80, first half: \<open>dropna(subset=["Year"])\<close>.\<close>

definition dropna_year :: "real option long_row list \<Rightarrow> real long_row list" where
  "dropna_year fr =
     List.map_filter
       (\<lambda>q. case year q of None \<Rightarrow> None
             | Some y \<Rightarrow> Some \<lparr>idx = idx q, year = y, val = val q, ids = ids q\<rparr>) fr"

text \<open>
  Line 80, second half: \<open>sort_values("Year")\<close>.  pandas sorts one column by taking the rows
  at the positions that the library's argsort of the key column returns; the script asks
  for no particular algorithm, so the default (quicksort) runs.  The argsort \<open>asrt\<close> is a
  parameter of the model, and \<open>argsort_ok\<close> is what the library promises of it: the positions
  are a permutation, and the keys read in that order ascend.
\<close>

definition sort_values :: "(real list \<Rightarrow> nat list) \<Rightarrow> real long_row list \<Rightarrow> real long_row list" where
  "sort_values asrt fr = map (\<lambda>i. fr ! i) (asrt (map year fr))"

definition argsort_ok :: "(real list \<Rightarrow> nat list) \<Rightarrow> bool" where
  "argsort_ok asrt =
     (\<forall>ks. mset (asrt ks) = mset [0..<length ks] \<and> sorted (map (\<lambda>i. ks ! i) (asrt ks)))"

text \<open>
  \<open>melt\<close> raises when its \<open>value_name\<close> is already a column of the frame; and with a column
  named Year among the identifiers the melted frame has two columns of that name, on which
  line 72 raises.  Either way the run ends in the Wide branch.
\<close>

definition melt_clash :: "string list \<Rightarrow> bool" where
  "melt_clash cols = (''Year'' \<in> set cols \<or> ''Value'' \<in> set cols)"

text \<open>The frame before line 80, and the LongSeries after it.\<close>

definition reshape_frame ::
  "(string \<Rightarrow> real option) \<Rightarrow> raw_table \<Rightarrow> selection \<Rightarrow> error + real option long_row list" where
  "reshape_frame pn t sel =
     (if is_wide (columns t) then
        (let value_vars = selected_year_cols (yr sel) (columns t)
         in if value_vars = [] then Inl EmptyRangeWarning
            else if melt_clash (columns t) then Inl MeltError
            else Inr (wide_frame pn t sel value_vars))
      else Inr (long_frame pn t sel))"

definition reshape ::
  "(string \<Rightarrow> real option) \<Rightarrow> (real list \<Rightarrow> nat list) \<Rightarrow> raw_table \<Rightarrow> selection \<Rightarrow>
     error + real long_row list" where
  "reshape pn asrt t sel =
     (case reshape_frame pn t sel of
        Inl e \<Rightarrow> Inl e
      | Inr fr \<Rightarrow> Inr (sort_values asrt (dropna_year fr)))"

section \<open>Analytics (lines 85 to 122)\<close>

text \<open>Line 91: \<open>clean = sub_long.dropna(subset=["Value"])\<close>.\<close>

definition clean :: "real long_row list \<Rightarrow> real long_row list" where
  "clean ls = filter (\<lambda>q. val q \<noteq> None) ls"

text \<open>
  Lines 92 to 105.  \<open>np.polyfit(x, y, 1)\<close> is the parameter \<open>pf\<close>; it returns the slope and the
  intercept, and is taken to return on every input.  \<open>np.arange(a + 1, a + 11)\<close> is the list of the ten integers from \<open>a + 1\<close> on.
  With fewer than two clean points the panel shows the notice instead.
\<close>

datatype notice = InsufficientDataNotice

definition forecast ::
  "(real list \<Rightarrow> real list \<Rightarrow> real \<times> real) \<Rightarrow> real long_row list \<Rightarrow> notice + (int \<times> real) list" where
  "forecast pf cl =
     (if length cl \<ge> 2 then
        (let x = map year cl;
             y = List.map_filter val cl;
             (m, b) = pf x y;
             a = py_int (Max (set x));
             future_years = [a + 1..a + 10];
             yhat = map (\<lambda>fy. m * real_of_int fy + b) future_years
         in Inr (zip future_years yhat))
      else Inl InsufficientDataNotice)"

text \<open>
  Lines 108 to 112: one row per distinct Year, in ascending order of Year, with the size
  of the group and the number of NaN Values in it; then
  \<open>np.where(total > 0, missing / total, 0)\<close>.
\<close>

record completeness =
  c_year :: real
  n_total :: nat
  n_missing :: nat
  missing_rate :: real

definition counts_row :: "real long_row list \<Rightarrow> real \<Rightarrow> completeness" where
  "counts_row ls k =
     (let grp = filter (\<lambda>q. year q = k) ls;
          tot = length grp;
          mis = length (filter (\<lambda>q. val q = None) grp)
      in \<lparr>c_year = k, n_total = tot, n_missing = mis,
          missing_rate = (if tot > 0 then real mis / real tot else 0)\<rparr>)"

definition counts :: "real long_row list \<Rightarrow> completeness list" where
  "counts ls = map (counts_row ls) (sort (remdups (map year ls)))"

text \<open>
  The four panels of one run: the trend (the LongSeries itself), the forecast or the
  notice, the completeness table, and the values the histogram bins.
\<close>

record panels =
  trend :: "real long_row list"
  forecast_panel :: "notice + (int \<times> real) list"
  completeness_panel :: "completeness list"
  distribution :: "real list"

definition analytics ::
  "(real list \<Rightarrow> real list \<Rightarrow> real \<times> real) \<Rightarrow> real long_row list \<Rightarrow> panels" where
  "analytics pf ls =
     \<lparr>trend = ls, forecast_panel = forecast pf (clean ls),
      completeness_panel = counts ls, distribution = List.map_filter val (clean ls)\<rparr>"

text \<open>One run on a loaded table: validation, reshaping, then the four panels.\<close>

definition dashboard ::
  "(string \<Rightarrow> real option) \<Rightarrow> (real list \<Rightarrow> nat list) \<Rightarrow> (real list \<Rightarrow> real list \<Rightarrow> real \<times> real) \<Rightarrow>
     raw_table \<Rightarrow> selection \<Rightarrow> error + panels" where
  "dashboard pn asrt pf t sel =
     (case validate t of
        Inl e \<Rightarrow> Inl e
      | Inr _ \<Rightarrow>
          (case reshape pn asrt t sel of
             Inl e \<Rightarrow> Inl e
           | Inr ls \<Rightarrow> Inr (analytics pf ls)))"

section \<open>The cached loader and a rerun (lines 9 to 14)\<close>

text \<open>
  \<open>load_raw\<close> is memoised by its path for the life of the process: the first call reads the
  file, later calls return the stored table.  The file system \<open>fs\<close> gives the table that
  \<open>read_csv\<close> would parse at a path, or \<open>None\<close> when the path cannot be read; a failed read
  stores nothing.  Every interaction reruns the script from the top, with the cache as the
  only state that survives.
\<close>

record session =
  cache :: "string \<Rightarrow> raw_table option"

definition load_raw ::
  "(string \<Rightarrow> raw_table option) \<Rightarrow> string \<Rightarrow> session \<Rightarrow> (error + raw_table) \<times> session" where
  "load_raw fs path s =
     (case cache s path of
        Some t \<Rightarrow> (Inr t, s)
      | None \<Rightarrow>
          (case fs path of
             None \<Rightarrow> (Inl IOError, s)
           | Some t \<Rightarrow> (Inr t, s\<lparr>cache := (cache s)(path := Some t)\<rparr>)))"

text \<open>One run up to line 80: load, validate, filter and reshape.\<close>

definition run_reshape ::
  "(string \<Rightarrow> raw_table option) \<Rightarrow> (string \<Rightarrow> real option) \<Rightarrow> (real list \<Rightarrow> nat list) \<Rightarrow>
     selection \<Rightarrow> session \<Rightarrow> (error + real long_row list) \<times> session" where
  "run_reshape fs pn asrt sel s =
     (case load_raw fs ''EdStatsData.csv'' s of
        (Inl e, s') \<Rightarrow> (Inl e, s')
      | (Inr t, s') \<Rightarrow>
          (case validate t of
             Inl e \<Rightarrow> (Inl e, s')
           | Inr _ \<Rightarrow> (reshape pn asrt t sel, s')))"

section \<open>The spec's wording, for comparison with the code\<close>

text \<open>
  The spec's contract for the Wide reshaper: the year columns of the table whose integer
  value lies in the selected range.
\<close>

definition spec_selected_year_cols :: "int \<times> int \<Rightarrow> string list \<Rightarrow> string list" where
  "spec_selected_year_cols r cols =
     filter (\<lambda>c. case year_col_int c of
                   Some v \<Rightarrow> fst r \<le> v \<and> v \<le> snd r
                 | None \<Rightarrow> False)
       (year_cols cols)"

text \<open>
  Stability on ties: of two rows with the same Year, the one that stood first in the frame
  before sorting comes first.  The index labels ascend in that frame, so they tell the
  original order.
\<close>

definition ties_in_row_order :: "real long_row list \<Rightarrow> bool" where
  "ties_in_row_order ls = sorted_wrt (\<lambda>a b. year a = year b \<longrightarrow> idx a < idx b) ls"

text \<open>A stable argsort: positions with equal keys come out in ascending order.\<close>

definition argsort_stable :: "(real list \<Rightarrow> nat list) \<Rightarrow> bool" where
  "argsort_stable asrt = (\<forall>ks. sorted_wrt (\<lambda>i j. ks ! i = ks ! j \<longrightarrow> i < j) (asrt ks))"

text \<open>
  What the Wide branch needs of the library's parser: a decimal numeral reads as its
  number.
\<close>

definition numeral_parser :: "(string \<Rightarrow> real option) \<Rightarrow> bool" where
  "numeral_parser pn = (\<forall>n. pn (str_nat n) = Some (real n))"

text \<open>
  The spec's fit: ordinary least squares, minimising the squared vertical residuals.  \<open>sse\<close>
  is the sum of the squared residuals of the line \<open>m * x + b\<close> on the points; a pair
  \<open>(m, b)\<close> is a least-squares fit when no line has a smaller sum.  \<open>polyfit_ok\<close> is the
  contract of \<open>np.polyfit(x, y, 1)\<close> in exact arithmetic: slope and intercept of a
  least-squares fit.  \<open>polyfit_within e\<close> is the contract of a solver that rounds: slope and
  intercept each within \<open>e\<close> of a least-squares fit.
\<close>

definition sse :: "real list \<Rightarrow> real list \<Rightarrow> real \<Rightarrow> real \<Rightarrow> real" where
  "sse xs ys m b = sum_list (map (\<lambda>(x, y). (y - (m * x + b))\<^sup>2) (zip xs ys))"

definition least_squares :: "real list \<Rightarrow> real list \<Rightarrow> real \<Rightarrow> real \<Rightarrow> bool" where
  "least_squares xs ys m b = (\<forall>m' b'. sse xs ys m b \<le> sse xs ys m' b')"

definition polyfit_ok :: "(real list \<Rightarrow> real list \<Rightarrow> real \<times> real) \<Rightarrow> bool" where
  "polyfit_ok pf =
     (\<forall>xs ys. length xs = length ys \<longrightarrow> least_squares xs ys (fst (pf xs ys)) (snd (pf xs ys)))"


section \<open>Instances of the library parameters\<close>

text \<open>
  Concrete functions to run the model on examples: a parser that reads strings of decimal
  digits only, a stable argsort (insertion sort on the keys), the sorting network of the
  vectorised argsort, and the least-squares line in closed form (lemma
  \<open>polyfit_ok_lsq_fit\<close>).
\<close>

definition digits_parser :: "string \<Rightarrow> real option" where
  "digits_parser s =
     (if s \<noteq> [] \<and> list_all py_isdecimal_char s then Some (real (digits_val s)) else None)"

definition stable_argsort :: "real list \<Rightarrow> nat list" where
  "stable_argsort ks = map snd (sort_key fst (zip ks [0..<length ks]))"

text \<open>
  \<open>sort_values\<close> passes \<open>kind="quicksort"\<close> to \<open>numpy.argsort\<close>.  On a processor with vector
  instructions numpy sorts an array that fits one vector register with a bitonic network of
  compare-exchange steps on the lanes, each lane holding a key and its position; a step
  exchanges two lanes when the key of the second is less than that of the first.  For four
  keys the steps are on the lanes (0, 1) and (2, 3), then (0, 3) and (1, 2), then (0, 1)
  and (2, 3).  On fewer keys the unused lanes hold the greatest value and the network
  leaves tied keys in place, as insertion sort does; longer arrays go through merge
  networks that are not modelled, and insertion sort stands in for them.
\<close>

definition cswap :: "real \<times> nat \<Rightarrow> real \<times> nat \<Rightarrow> (real \<times> nat) \<times> (real \<times> nat)" where
  "cswap p q = (if fst q < fst p then (q, p) else (p, q))"

definition network4 ::
  "real \<times> nat \<Rightarrow> real \<times> nat \<Rightarrow> real \<times> nat \<Rightarrow> real \<times> nat \<Rightarrow> (real \<times> nat) list" where
  "network4 l0 l1 l2 l3 =
     (let (a, b) = cswap l0 l1; (c, d) = cswap l2 l3;
          (a, d) = cswap a d; (b, c) = cswap b c;
          (a, b) = cswap a b; (c, d) = cswap c d
      in [a, b, c, d])"

definition vector_argsort :: "real list \<Rightarrow> nat list" where
  "vector_argsort ks =
     (case ks of
        [k0, k1, k2, k3] \<Rightarrow> map snd (network4 (k0, 0) (k1, 1) (k2, 2) (k3, 3))
      | _ \<Rightarrow> stable_argsort ks)"

definition lsq_fit :: "real list \<Rightarrow> real list \<Rightarrow> real \<times> real" where
  "lsq_fit xs ys =
     (let n = real (length xs); sx = sum_list xs; sy = sum_list ys;
          sxx = sum_list (map (\<lambda>x. x * x) xs); sxy = sum_list (map (\<lambda>(x, y). x * y) (zip xs ys));
          m = (n * sxy - sx * sy) / (n * sxx - sx * sx);
          b = (sy - m * sx) / n
      in (m, b))"



section \<open>Example tables\<close>

definition mk_row :: "(string \<times> cell) list \<Rightarrow> row" where
  "mk_row kv c = (case map_of kv c of Some v \<Rightarrow> v | None \<Rightarrow> CNaN)"

definition sel_A :: "int \<times> int \<Rightarrow> selection" where
  "sel_A r = \<lparr>country = CStr ''A'', indicator = CStr ''I'', yr = r\<rparr>"

definition id_A :: "(string \<times> cell) list" where
  "id_A = [(''Country Name'', CStr ''A''), (''Indicator Name'', CStr ''I'')]"

text \<open>Long tables of country A and indicator I, given by their Year and Value cells.\<close>

definition long_cols :: "string list" where
  "long_cols = [''Country Name'', ''Indicator Name'', ''Year'', ''Value'']"

definition long_row_of :: "cell \<Rightarrow> cell \<Rightarrow> row" where
  "long_row_of y v =
     mk_row [(''Country Name'', CStr ''A''), (''Indicator Name'', CStr ''I''),
             (''Year'', y), (''Value'', v)]"

definition long_table :: "(cell \<times> cell) list \<Rightarrow> raw_table" where
  "long_table yvs = \<lparr>columns = long_cols, rows = map (\<lambda>(y, v). long_row_of y v) yvs\<rparr>"

text \<open>The spec's Long scenario: Year cells 2000, abc, 2002; the last Value does not parse.\<close>

definition scenario_long :: raw_table where
  "scenario_long =
     long_table [(CStr ''2000'', CNum 10), (CStr ''abc'', CNum 20), (CStr ''2002'', CStr ''n/a'')]"

definition scenario_long_series :: "real long_row list" where
  "scenario_long_series =
     [\<lparr>idx = 0, year = 2000, val = Some 10, ids = id_A\<rparr>,
      \<lparr>idx = 2, year = 2002, val = None, ids = id_A\<rparr>]"

text \<open>
  A Long table of four rows, newest first: two rows of the year 2001, then two of 2000.
  \<open>tied_series\<close> is its LongSeries with the ties in row order, \<open>tied_series_network\<close> the
  one that the sorting network returns.
\<close>

definition tied_long :: raw_table where
  "tied_long =
     long_table [(CNum 2001, CNum 1), (CNum 2001, CNum 2), (CNum 2000, CNum 3), (CNum 2000, CNum 4)]"

definition tied_series :: "real long_row list" where
  "tied_series =
     [\<lparr>idx = 2, year = 2000, val = Some 3, ids = id_A\<rparr>,
      \<lparr>idx = 3, year = 2000, val = Some 4, ids = id_A\<rparr>,
      \<lparr>idx = 0, year = 2001, val = Some 1, ids = id_A\<rparr>,
      \<lparr>idx = 1, year = 2001, val = Some 2, ids = id_A\<rparr>]"

definition tied_series_network :: "real long_row list" where
  "tied_series_network =
     [\<lparr>idx = 3, year = 2000, val = Some 4, ids = id_A\<rparr>,
      \<lparr>idx = 2, year = 2000, val = Some 3, ids = id_A\<rparr>,
      \<lparr>idx = 1, year = 2001, val = Some 2, ids = id_A\<rparr>,
      \<lparr>idx = 0, year = 2001, val = Some 1, ids = id_A\<rparr>]"

text \<open>
  A Long table whose Year column holds the numbers 1998, 1999.5 and 2005; the slider runs
  from 1998 to 2005, and the selection below narrows it to 1998 to 2000.
\<close>

definition half_year_long :: raw_table where
  "half_year_long =
     long_table [(CNum 1998, CNum 0), (CNum (3999 / 2), CNum 3), (CNum 2005, CNum 7)]"

definition half_year_series :: "real long_row list" where
  "half_year_series =
     [\<lparr>idx = 0, year = 1998, val = Some 0, ids = id_A\<rparr>,
      \<lparr>idx = 1, year = 3999 / 2, val = Some 3, ids = id_A\<rparr>]"

definition half_year_forecast :: "(int \<times> real) list" where
  "half_year_forecast =
     [(2000, 4), (2001, 6), (2002, 8), (2003, 10), (2004, 12),
      (2005, 14), (2006, 16), (2007, 18), (2008, 20), (2009, 22)]"

text \<open>The spec's Wide scenario: one row, 10 in 2000, missing in 2001, 30 in 2002.\<close>

definition wide_cols :: "string list" where
  "wide_cols = [''Country Name'', ''Indicator Name'', ''2000'', ''2001'', ''2002'']"

definition wide_row :: row where
  "wide_row =
     mk_row [(''Country Name'', CStr ''A''), (''Indicator Name'', CStr ''I''),
             (''2000'', CNum 10), (''2001'', CNaN), (''2002'', CNum 30)]"

definition scenario_wide :: raw_table where
  "scenario_wide = \<lparr>columns = wide_cols, rows = [wide_row]\<rparr>"

definition scenario_wide_series :: "real long_row list" where
  "scenario_wide_series =
     [\<lparr>idx = 0, year = 2000, val = Some 10, ids = id_A\<rparr>,
      \<lparr>idx = 1, year = 2001, val = None, ids = id_A\<rparr>,
      \<lparr>idx = 2, year = 2002, val = Some 30, ids = id_A\<rparr>]"

definition scenario_wide_forecast :: "(int \<times> real) list" where
  "scenario_wide_forecast =
     [(2003, 40), (2004, 50), (2005, 60), (2006, 70), (2007, 80),
      (2008, 90), (2009, 100), (2010, 110), (2011, 120), (2012, 130)]"

definition scenario_wide_counts :: "completeness list" where
  "scenario_wide_counts =
     [\<lparr>c_year = 2000, n_total = 1, n_missing = 0, missing_rate = 0\<rparr>,
      \<lparr>c_year = 2001, n_total = 1, n_missing = 1, missing_rate = 1\<rparr>,
      \<lparr>c_year = 2002, n_total = 1, n_missing = 0, missing_rate = 0\<rparr>]"

text \<open>A Wide header whose second year column was written with a leading blank.\<close>

definition padded_cols :: "string list" where
  "padded_cols = [''Country Name'', ''Indicator Name'', ''2000'', '' 2001'']"

text \<open>A table under that header: the cell of 2001 holds 20.\<close>

definition padded_row :: row where
  "padded_row =
     mk_row [(''Country Name'', CStr ''A''), (''Indicator Name'', CStr ''I''),
             (''2000'', CNum 10), ('' 2001'', CNum 20)]"

definition padded_table :: raw_table where
  "padded_table = \<lparr>columns = padded_cols, rows = [padded_row]\<rparr>"

definition padded_series :: "real long_row list" where
  "padded_series = [\<lparr>idx = 0, year = 2000, val = Some 10, ids = id_A\<rparr>]"



text \<open>
  A Long table with a fifth column whose name is the one character SUPERSCRIPT TWO (code
  point 0xB2): a digit for \<open>isdigit\<close>, but not a decimal digit.
\<close>

definition superscript_cols :: "string list" where
  "superscript_cols = [''Country Name'', ''Indicator Name'', ''Year'', ''Value'', [CHR 0xB2]]"

definition superscript_table :: raw_table where
  "superscript_table =
     \<lparr>columns = superscript_cols,
      rows = [mk_row [(''Country Name'', CStr ''A''), (''Indicator Name'', CStr ''I''),
                      (''Year'', CNum 2000), (''Value'', CNum 10), ([CHR 0xB2], CNum 1)]]\<rparr>"

text \<open>A Long table of which no Year cell is a number.\<close>

definition unparsed_long :: raw_table where
  "unparsed_long = long_table [(CStr ''abc'', CNum 20), (CStr ''n/a'', CNum 30)]"

text \<open>A file system with the one data file, and a session whose cache is empty.\<close>

definition one_file :: "string \<Rightarrow> raw_table option" where
  "one_file path = (if path = ''EdStatsData.csv'' then Some scenario_long else None)"

definition cold :: session where
  "cold = \<lparr>cache = (\<lambda>path. None)\<rparr>"

section \<open>Facts about the string built-ins\<close>

lemma digit_not_space: "py_isdigit_char c \<Longrightarrow> \<not> py_isspace c"
  by (auto simp: py_isdigit_char_def py_isspace_def digit_chars_def decimal_chars_def
      superscript_chars_def whitespace_chars_def)

lemma decimal_is_digit: "py_isdecimal_char c \<Longrightarrow> py_isdigit_char c"
  by (simp add: py_isdecimal_char_def py_isdigit_char_def digit_chars_def)

lemma decimal_not_int_space: "py_isdecimal_char c \<Longrightarrow> \<not> int_space c"
  by (auto simp: py_isdecimal_char_def int_space_def decimal_chars_def int_space_chars_def)

lemma decimal_not_sign:
  "py_isdecimal_char c \<Longrightarrow> c \<noteq> CHR ''-'' \<and> c \<noteq> CHR ''+'' \<and> c \<noteq> CHR ''_''"
  by (auto simp: py_isdecimal_char_def decimal_chars_def)

lemma digit_or_space_not_minus: "py_isdigit_char c \<or> py_isspace c \<Longrightarrow> c \<noteq> CHR ''-''"
  by (auto simp: py_isdigit_char_def py_isspace_def digit_chars_def decimal_chars_def
      superscript_chars_def whitespace_chars_def)

lemma dropWhile_all: "list_all P l \<Longrightarrow> dropWhile P (l @ xs) = dropWhile P xs"
  by (induction l) auto

lemma trim_block:
  assumes l: "list_all P l" and r: "list_all P r"
    and d: "d \<noteq> []" "\<not> P (hd d)" "\<not> P (last d)"
  shows "rev (dropWhile P (rev (dropWhile P (l @ d @ r)))) = d"
proof -
  from d obtain x xs where dx: "d = x # xs" by (cases d) auto
  from d obtain ys y where dy: "d = ys @ [y]" by (cases d rule: rev_cases) auto
  have "dropWhile P (l @ d @ r) = d @ r"
    using l d(2) dx by (simp add: dropWhile_all)
  moreover have "dropWhile P (rev (d @ r)) = rev d"
  proof -
    have "rev (d @ r) = rev r @ rev d" by simp
    moreover have "list_all P (rev r)" using r by (simp add: list_all_iff)
    moreover have "dropWhile P (rev d) = rev d" using d(3) dy by simp
    ultimately show ?thesis by (simp add: dropWhile_all)
  qed
  ultimately show ?thesis by simp
qed

lemma strip_digits_block:
  assumes l: "list_all py_isspace l" and r: "list_all py_isspace r"
    and d: "d \<noteq> []" "list_all py_isdigit_char d"
  shows "strip (l @ d @ r) = d"
proof -
  from d have "py_isdigit_char (hd d)" "py_isdigit_char (last d)"
    by (simp_all add: list_all_iff)
  then have "\<not> py_isspace (hd d)" "\<not> py_isspace (last d)" by (simp_all add: digit_not_space)
  with l r d(1) show ?thesis unfolding strip_def by (rule trim_block)
qed

lemma strip_decompose:
  "\<exists>l r. s = l @ strip s @ r \<and> list_all py_isspace l \<and> list_all py_isspace r"
proof -
  let ?l = "takeWhile py_isspace s"
  let ?m = "dropWhile py_isspace s"
  let ?r = "rev (takeWhile py_isspace (rev ?m))"
  have m: "?m = strip s @ ?r"
  proof -
    have "?m = rev (dropWhile py_isspace (rev ?m)) @ rev (takeWhile py_isspace (rev ?m))"
      by (metis rev_append rev_rev_ident takeWhile_dropWhile_id)
    then show ?thesis by (simp only: strip_def)
  qed
  have "s = ?l @ ?m" by simp
  with m have "s = ?l @ strip s @ ?r" by simp
  moreover have "list_all py_isspace ?l"
    by (simp add: list_all_iff) (metis set_takeWhileD)
  moreover have "list_all py_isspace ?r"
    by (simp add: list_all_iff) (metis set_takeWhileD)
  ultimately show ?thesis by blast
qed

lemma year_column_digit_block:
  "isdigit (strip c) \<longleftrightarrow>
     (\<exists>l d r. c = l @ d @ r \<and> list_all py_isspace l \<and> list_all py_isspace r \<and>
        d \<noteq> [] \<and> list_all py_isdigit_char d)"
proof
  assume a: "isdigit (strip c)"
  from strip_decompose [of c] obtain l r where
    "c = l @ strip c @ r" "list_all py_isspace l" "list_all py_isspace r" by blast
  with a show "\<exists>l d r. c = l @ d @ r \<and> list_all py_isspace l \<and> list_all py_isspace r \<and>
        d \<noteq> [] \<and> list_all py_isdigit_char d"
    unfolding isdigit_def by blast
next
  assume "\<exists>l d r. c = l @ d @ r \<and> list_all py_isspace l \<and> list_all py_isspace r \<and>
        d \<noteq> [] \<and> list_all py_isdigit_char d"
  then obtain l d r where c: "c = l @ d @ r" and l: "list_all py_isspace l"
    and r: "list_all py_isspace r" and d: "d \<noteq> []" "list_all py_isdigit_char d"
    by blast
  from strip_digits_block [OF l r d] c d show "isdigit (strip c)"
    by (simp add: isdigit_def)
qed

lemma spec_year_column_is_year_col: "spec_year_column c \<Longrightarrow> isdigit (strip c)"
proof -
  assume "spec_year_column c"
  then obtain l d r where "c = l @ d @ r" "list_all py_isspace l" "list_all py_isspace r"
    "d \<noteq> []" "list_all py_isdecimal_char d"
    unfolding spec_year_column_def by blast
  moreover then have "list_all py_isdigit_char d"
    by (simp add: list_all_iff decimal_is_digit)
  ultimately show ?thesis unfolding year_column_digit_block by blast
qed

lemma digit_decimal_or_superscript:
  "py_isdigit_char x \<Longrightarrow> x \<notin> set superscript_chars \<Longrightarrow> py_isdecimal_char x"
  by (auto simp: py_isdigit_char_def py_isdecimal_char_def digit_chars_def)

lemma year_col_without_superscripts:
  assumes "list_all (\<lambda>x. x \<notin> set superscript_chars) c" and "isdigit (strip c)"
  shows "spec_year_column c"
proof -
  from assms(2) obtain l d r where c: "c = l @ d @ r" and lr: "list_all py_isspace l"
    "list_all py_isspace r" and d: "d \<noteq> []" "list_all py_isdigit_char d"
    unfolding year_column_digit_block by blast
  from assms(1) c have "list_all (\<lambda>x. x \<notin> set superscript_chars) d" by simp
  with d have "list_all py_isdecimal_char d"
    by (auto simp: list_all_iff digit_decimal_or_superscript)
  with c lr d show ?thesis unfolding spec_year_column_def by blast
qed

lemma is_wide_iff_digit_block:
  "is_wide cols \<longleftrightarrow> (\<exists>c \<in> set cols. isdigit (strip c))"
  by (auto simp: is_wide_def year_cols_def filter_empty_conv)

lemma is_wide_iff_without_superscripts:
  assumes "\<forall>c \<in> set cols. list_all (\<lambda>x. x \<notin> set superscript_chars) c"
  shows "is_wide cols \<longleftrightarrow> (\<exists>c \<in> set cols. spec_year_column c)"
  using assms spec_year_column_is_year_col year_col_without_superscripts
  unfolding is_wide_iff_digit_block by blast

lemma digit_char_decimal: "d < 10 \<Longrightarrow> py_isdecimal_char (digit_char d)"
  unfolding py_isdecimal_char_def digit_char_def
  by (rule nth_mem) (simp add: decimal_chars_def)

lemma digit_val_digit_char: "d < 10 \<Longrightarrow> digit_val (digit_char d) = d"
proof -
  assume d: "d < 10"
  have "list_all (\<lambda>d. digit_val (digit_char d) = d) [0..<10]"
    by code_simp
  with d show ?thesis by (simp add: list_all_iff)
qed

lemma str_nat_decimal: "list_all py_isdecimal_char (str_nat n) \<and> str_nat n \<noteq> []"
proof (induction n rule: str_nat.induct)
  case (1 n)
  show ?case
  proof (cases "n < 10")
    case True
    then show ?thesis by (simp add: str_nat.simps [of n] digit_char_decimal)
  next
    case False
    with 1 show ?thesis by (simp add: str_nat.simps [of n] digit_char_decimal)
  qed
qed

lemma str_nat_digits: "list_all py_isdigit_char (str_nat n) \<and> str_nat n \<noteq> []"
  using str_nat_decimal [of n] by (simp add: list_all_iff decimal_is_digit)

lemma isdigit_str_nat: "isdigit (str_nat n)"
  using str_nat_digits [of n] by (simp add: isdigit_def)

lemma strip_str_nat: "strip (str_nat n) = str_nat n"
  using strip_digits_block [of "[]" "[]" "str_nat n"] str_nat_digits [of n] by simp

lemma digits_val_snoc: "digits_val (s @ [c]) = 10 * digits_val s + digit_val c"
  by (simp add: digits_val_def)

lemma digits_val_str_nat: "digits_val (str_nat n) = n"
proof (induction n rule: str_nat.induct)
  case (1 n)
  show ?case
  proof (cases "n < 10")
    case True
    then show ?thesis
      by (simp add: str_nat.simps [of n] digits_val_def digit_val_digit_char)
  next
    case False
    with 1 have "digits_val (str_nat (n div 10)) = n div 10" by simp
    with False show ?thesis
      by (simp add: str_nat.simps [of n] digits_val_snoc digit_val_digit_char)
  qed
qed

lemma numeral_parser_digits_parser: "numeral_parser digits_parser"
  using str_nat_decimal
  by (simp add: numeral_parser_def digits_parser_def digits_val_str_nat)

lemma decimal_no_double_underscore: "list_all py_isdecimal_char s \<Longrightarrow> no_double_underscore s"
  by (induction s rule: no_double_underscore.induct) (auto simp: decimal_not_sign)

lemma year_col_int_padded:
  assumes l: "list_all int_space l" and r: "list_all int_space r"
    and d: "d \<noteq> []" "list_all py_isdecimal_char d"
  shows "year_col_int (l @ d @ r) = Some (int (digits_val d))"
proof -
  from d have hl: "py_isdecimal_char (hd d)" "py_isdecimal_char (last d)"
    by (simp_all add: list_all_iff)
  then have "\<not> int_space (hd d)" "\<not> int_space (last d)"
    by (simp_all add: decimal_not_int_space)
  with l r d(1) have t: "rev (dropWhile int_space (rev (dropWhile int_space (l @ d @ r)))) = d"
    by (rule trim_block)
  from hl have sign: "hd d \<noteq> CHR ''-''" "hd d \<noteq> CHR ''+''" by (simp_all add: decimal_not_sign)
  from d hl have ok: "int_body_ok d"
    by (simp add: int_body_ok_def decimal_no_double_underscore list_all_iff)
  from d have f: "filter py_isdecimal_char d = d" by (simp add: list_all_iff)
  show ?thesis unfolding year_col_int_def t using sign ok f by (simp add: Let_def)
qed

lemma year_col_int_str_nat: "year_col_int (str_nat n) = Some (int n)"
  using year_col_int_padded [of "[]" "[]" "str_nat n"] str_nat_decimal [of n]
  by (simp add: digits_val_str_nat)

lemma year_col_int_nonneg:
  assumes yc: "isdigit (strip c)" and v: "year_col_int c = Some v"
  shows "0 \<le> v"
proof -
  from yc obtain l d r where c: "c = l @ d @ r" and "list_all py_isspace l"
    "list_all py_isspace r" "list_all py_isdigit_char d"
    unfolding year_column_digit_block by blast
  then have "\<forall>x \<in> set c. py_isdigit_char x \<or> py_isspace x" by (auto simp: list_all_iff)
  then have nominus: "CHR ''-'' \<notin> set c" using digit_or_space_not_minus by blast
  let ?t = "rev (dropWhile int_space (rev (dropWhile int_space c)))"
  have "set ?t \<subseteq> set c"
  proof
    fix x assume "x \<in> set ?t"
    then have "x \<in> set (dropWhile int_space (rev (dropWhile int_space c)))" by simp
    then have "x \<in> set (rev (dropWhile int_space c))" by (rule set_dropWhileD)
    then have "x \<in> set (dropWhile int_space c)" by simp
    then show "x \<in> set c" by (rule set_dropWhileD)
  qed
  with nominus have "CHR ''-'' \<notin> set ?t" by blast
  then have "\<not> (?t \<noteq> [] \<and> hd ?t = CHR ''-'')" by (metis hd_in_set)
  with v show ?thesis
    by (auto simp: year_col_int_def Let_def split: if_splits)
qed

text \<open>
  The slider of a Wide table never offers a negative year: its bounds are values of year
  column names, which carry no sign.
\<close>

lemma map_filter_nonneg:
  assumes "\<forall>c \<in> set cs. isdigit (strip c)"
  shows "\<forall>v \<in> set (List.map_filter year_col_int cs). 0 \<le> v"
  using assms year_col_int_nonneg
  by (auto simp: List.map_filter_def)

lemma wide_slider_nonneg:
  assumes "is_wide (columns t)" and "year_bounds pn t = Inr b" and "slider_allows b r"
  shows "0 \<le> fst r"
proof -
  let ?yc = "year_cols (columns t)"
  let ?ys = "List.map_filter year_col_int ?yc"
  from assms(1,2) have len: "length ?ys = length ?yc" and b: "b = (Min (set ?ys), Max (set ?ys))"
    by (auto simp: year_bounds_def Let_def split: if_splits)
  from assms(1) len have ne: "set ?ys \<noteq> {}" by (auto simp: is_wide_def)
  have "\<forall>c \<in> set ?yc. isdigit (strip c)" by (simp add: year_cols_def)
  then have nonneg: "\<forall>v \<in> set ?ys. 0 \<le> v" by (rule map_filter_nonneg)
  from ne have "Min (set ?ys) \<in> set ?ys" "Max (set ?ys) \<in> set ?ys"
    by (simp_all add: Min_in Max_in)
  with nonneg b have "0 \<le> fst b" "0 \<le> snd b" by auto
  with assms(3) show ?thesis
    by (simp add: slider_allows_def Let_def min_def max_def split: if_splits)
qed

section \<open>Facts about the sort\<close>

lemma take_by_permutation:
  assumes "mset p = mset [0..<length xs]"
  shows "mset (map (\<lambda>i. xs ! i) p) = mset xs"
proof -
  have "mset (map (\<lambda>i. xs ! i) p) = image_mset (\<lambda>i. xs ! i) (mset p)" by simp
  also have "\<dots> = image_mset (\<lambda>i. xs ! i) (mset [0..<length xs])" using assms by simp
  also have "\<dots> = mset (map (\<lambda>i. xs ! i) [0..<length xs])" by simp
  also have "\<dots> = mset xs" by (simp add: map_nth)
  finally show ?thesis .
qed

lemma sort_values_mset: "argsort_ok asrt \<Longrightarrow> mset (sort_values asrt fr) = mset fr"
  unfolding sort_values_def argsort_ok_def
  using take_by_permutation [of "asrt (map year fr)" fr] by simp

lemma sort_values_length: "argsort_ok asrt \<Longrightarrow> length (sort_values asrt fr) = length fr"
  using sort_values_mset [of asrt fr] by (metis size_mset)

lemma sort_values_set: "argsort_ok asrt \<Longrightarrow> set (sort_values asrt fr) = set fr"
  using sort_values_mset [of asrt fr] by (metis set_mset_mset)

lemma sort_values_sorted:
  assumes "argsort_ok asrt"
  shows "sorted (map year (sort_values asrt fr))"
proof -
  let ?ks = "map year fr"
  let ?p = "asrt ?ks"
  from assms have p: "mset ?p = mset [0..<length ?ks]"
    and s: "sorted (map (\<lambda>i. ?ks ! i) ?p)"
    by (simp_all add: argsort_ok_def)
  from p have "set ?p = set [0..<length ?ks]" by (metis set_mset_mset)
  then have "\<forall>i \<in> set ?p. i < length fr" by simp
  then have "map year (sort_values asrt fr) = map (\<lambda>i. ?ks ! i) ?p"
    by (simp add: sort_values_def)
  with s show ?thesis by simp
qed

lemma argsort_ok_stable: "argsort_ok stable_argsort"
proof -
  have "mset (stable_argsort ks) = mset [0..<length ks]" for ks
  proof -
    have "mset (map snd (sort_key fst (zip ks [0..<length ks]))) =
        mset (map snd (zip ks [0..<length ks]))"
      by (simp only: mset_map mset_sort)
    moreover have "map snd (zip ks [0..<length ks]) = [0..<length ks]" by simp
    ultimately show ?thesis by (simp only: stable_argsort_def mset_rev)
  qed
  moreover have "sorted (map (\<lambda>i. ks ! i) (stable_argsort ks))" for ks
  proof -
    let ?z = "zip ks [0..<length ks]"
    have z: "\<forall>q \<in> set ?z. ks ! snd q = fst q"
      by (auto simp: set_zip)
    have "set (sort_key fst ?z) = set ?z" by simp
    with z have "map (\<lambda>i. ks ! i) (stable_argsort ks) = map fst (sort_key fst ?z)"
      by (simp add: stable_argsort_def)
    then show ?thesis by simp
  qed
  ultimately show ?thesis by (simp add: argsort_ok_def)
qed

text \<open>The network on four lanes sorts them, so the vectorised argsort meets the contract.\<close>

lemma cswap_props:
  assumes "cswap p q = (a, b)"
  shows "{#a, b#} = {#p, q#}" "fst a = min (fst p) (fst q)" "fst b = max (fst p) (fst q)"
  using assms by (auto simp: cswap_def min_def max_def split: if_splits)

lemma network4_sorts:
  "mset (network4 l0 l1 l2 l3) = {#l0, l1, l2, l3#} \<and> sorted (map fst (network4 l0 l1 l2 l3))"
proof -
  obtain a1 b1 where s1: "cswap l0 l1 = (a1, b1)" by (cases "cswap l0 l1")
  obtain c1 d1 where s2: "cswap l2 l3 = (c1, d1)" by (cases "cswap l2 l3")
  obtain a2 d2 where s3: "cswap a1 d1 = (a2, d2)" by (cases "cswap a1 d1")
  obtain b2 c2 where s4: "cswap b1 c1 = (b2, c2)" by (cases "cswap b1 c1")
  obtain a3 b3 where s5: "cswap a2 b2 = (a3, b3)" by (cases "cswap a2 b2")
  obtain c3 d3 where s6: "cswap c2 d2 = (c3, d3)" by (cases "cswap c2 d2")
  have n: "network4 l0 l1 l2 l3 = [a3, b3, c3, d3]"
    by (simp add: network4_def s1 s2 s3 s4 s5 s6)
  have "{#a3, b3, c3, d3#} = {#a3, b3#} + {#c3, d3#}" by simp
  also have "\<dots> = {#a2, b2#} + {#c2, d2#}"
    by (simp only: cswap_props(1) [OF s5] cswap_props(1) [OF s6])
  also have "\<dots> = {#a2, d2#} + {#b2, c2#}" by simp
  also have "\<dots> = {#a1, d1#} + {#b1, c1#}"
    by (simp only: cswap_props(1) [OF s3] cswap_props(1) [OF s4])
  also have "\<dots> = {#a1, b1#} + {#c1, d1#}" by simp
  also have "\<dots> = {#l0, l1#} + {#l2, l3#}"
    by (simp only: cswap_props(1) [OF s1] cswap_props(1) [OF s2])
  finally have m: "{#a3, b3, c3, d3#} = {#l0, l1, l2, l3#}" by simp
  have "fst a3 \<le> fst b3 \<and> fst b3 \<le> fst c3 \<and> fst c3 \<le> fst d3"
    unfolding cswap_props(2,3) [OF s5] cswap_props(2,3) [OF s6]
      cswap_props(2,3) [OF s3] cswap_props(2,3) [OF s4]
      cswap_props(2,3) [OF s1] cswap_props(2,3) [OF s2]
    by (auto simp: min_def max_def)
  with m n show ?thesis by simp
qed

lemma argsort_ok_vector: "argsort_ok vector_argsort"
  unfolding argsort_ok_def
proof
  fix ks :: "real list"
  show "mset (vector_argsort ks) = mset [0..<length ks] \<and>
      sorted (map (\<lambda>i. ks ! i) (vector_argsort ks))"
  proof (cases "\<exists>k0 k1 k2 k3. ks = [k0, k1, k2, k3]")
    case True
    then obtain k0 k1 k2 k3 where ks: "ks = [k0, k1, k2, k3]" by blast
    let ?n = "network4 (k0, 0) (k1, 1) (k2, 2) (k3, 3)"
    have v: "vector_argsort ks = map snd ?n" by (simp add: vector_argsort_def ks)
    have m: "mset ?n = {#(k0, 0), (k1, 1), (k2, 2), (k3, 3)#}"
      and s: "sorted (map fst ?n)"
      using network4_sorts [of "(k0, 0)" "(k1, 1)" "(k2, 2)" "(k3, 3)"] by simp_all
    from m have "set ?n = {(k0, 0), (k1, 1), (k2, 2), (k3, 3)}"
      by (metis set_mset_mset set_mset_add_mset_insert set_mset_empty)
    then have "\<forall>q \<in> set ?n. ks ! snd q = fst q" by (auto simp: ks)
    then have e: "map (\<lambda>i. ks ! i) (map snd ?n) = map fst ?n" by simp
    have "mset (map snd ?n) = image_mset snd (mset ?n)" by simp
    also have "\<dots> = {#0, 1, 2, 3#}" unfolding m by simp
    also have "\<dots> = mset [0, 1, 2, 3]" by simp
    also have "[0, 1, 2, 3] = [0..<length ks]" by (simp add: ks upt_rec_numeral)
    finally have p: "mset (vector_argsort ks) = mset [0..<length ks]" by (simp only: v)
    from s have "sorted (map (\<lambda>i. ks ! i) (vector_argsort ks))" by (simp only: v e)
    with p show ?thesis by (rule conjI)
  next
    case False
    then have "vector_argsort ks = stable_argsort ks"
      by (auto simp: vector_argsort_def split: list.splits)
    with argsort_ok_stable show ?thesis by (simp add: argsort_ok_def)
  qed
qed

lemma insort_key_ties:
  assumes "sorted_wrt (\<lambda>a b. f a = f b \<longrightarrow> R a b) ys" and "\<forall>y \<in> set ys. R x y"
  shows "sorted_wrt (\<lambda>a b. f a = f b \<longrightarrow> R a b) (insort_key f x ys)"
  using assms by (induction ys) (auto simp: set_insort_key)

lemma sort_key_ties:
  "sorted_wrt R xs \<Longrightarrow> sorted_wrt (\<lambda>a b. f a = f b \<longrightarrow> R a b) (sort_key f xs)"
proof (induction xs)
  case Nil
  then show ?case by simp
next
  case (Cons x xs)
  then have "sorted_wrt (\<lambda>a b. f a = f b \<longrightarrow> R a b) (sort_key f xs)"
    and "\<forall>y \<in> set (sort_key f xs). R x y" by simp_all
  then show ?case by (simp add: sort_key_simps insort_key_ties)
qed

lemma argsort_stable_stable: "argsort_stable stable_argsort"
  unfolding argsort_stable_def
proof
  fix ks :: "real list"
  let ?z = "zip ks [0..<length ks]"
  let ?s = "sort_key fst ?z"
  have "sorted_wrt (<) (map snd ?z)" by (simp add: sorted_wrt_upt)
  then have "sorted_wrt (\<lambda>a b. snd a < snd b) ?z" by (simp only: sorted_wrt_map)
  then have t: "sorted_wrt (\<lambda>a b. fst a = fst b \<longrightarrow> snd a < snd b) ?s" by (rule sort_key_ties)
  have z: "\<forall>q \<in> set ?s. ks ! snd q = fst q" by (auto simp: set_zip)
  have "sorted_wrt (\<lambda>a b. ks ! snd a = ks ! snd b \<longrightarrow> snd a < snd b) ?s"
    by (rule sorted_wrt_mono_rel [OF _ t]) (use z in auto)
  then show "sorted_wrt (\<lambda>i j. ks ! i = ks ! j \<longrightarrow> i < j) (stable_argsort ks)"
    by (simp add: stable_argsort_def sorted_wrt_map)
qed

section \<open>Facts about the reshaper\<close>

lemma dropna_year_Nil: "dropna_year [] = []"
  by (simp add: dropna_year_def List.map_filter_simps)

lemma dropna_year_Cons:
  "dropna_year (q # fr) =
     (case year q of None \<Rightarrow> dropna_year fr
      | Some y \<Rightarrow> \<lparr>idx = idx q, year = y, val = val q, ids = ids q\<rparr> # dropna_year fr)"
  by (simp add: dropna_year_def List.map_filter_simps split: option.splits)

lemma dropna_year_length: "length (dropna_year fr) = length (filter (\<lambda>q. year q \<noteq> None) fr)"
  by (induction fr) (auto simp: dropna_year_Nil dropna_year_Cons split: option.splits)

lemma dropna_year_keeps_all:
  "list_all (\<lambda>q. year q \<noteq> None) fr \<Longrightarrow> length (dropna_year fr) = length fr"
  by (simp add: dropna_year_length list_all_iff)

lemma dropna_year_set:
  "set (dropna_year fr) =
     {\<lparr>idx = idx q, year = y, val = val q, ids = ids q\<rparr> | q y. q \<in> set fr \<and> year q = Some y}"
  by (induction fr) (auto simp: dropna_year_Nil dropna_year_Cons split: option.splits)

lemma dropna_year_map_idx:
  "map idx (dropna_year fr) = map idx (filter (\<lambda>q. year q \<noteq> None) fr)"
  by (induction fr) (auto simp: dropna_year_Nil dropna_year_Cons split: option.splits)

lemma melt_length: "length (melt idv vv rs) = length vv * length rs"
  by (induction vv) (simp_all add: melt_def)

lemma wide_frame_length:
  "length (wide_frame pn t sel vv) = length vv * length (sub t sel)"
  by (simp add: wide_frame_def melt_length)

lemma melt_member:
  assumes "(i, idc, v, c) \<in> set (melt idv vv rs)"
  shows "v \<in> set vv"
proof -
  let ?body = "concat (map (\<lambda>v. map (\<lambda>(i, r). (map (\<lambda>c. (c, r c)) idv, v, r v)) rs) vv)"
  from assms have "i < length ?body" "?body ! i = (idc, v, c)"
    by (simp_all add: melt_def in_set_enumerate_eq)
  then have "(idc, v, c) \<in> set ?body" using nth_mem [of i ?body] by simp
  then show ?thesis by auto
qed

lemma wide_frame_year:
  assumes "q \<in> set (wide_frame pn t sel vv)"
  shows "\<exists>v \<in> set vv. year q = pn v"
proof -
  from assms obtain i idc v c where
    m: "(i, idc, v, c) \<in> set (melt (id_vars (columns t)) vv (sub t sel))"
    and q: "q = \<lparr>idx = i, year = to_numeric pn (CStr v), val = to_numeric pn c, ids = idc\<rparr>"
    by (auto simp: wide_frame_def)
  from melt_member [OF m] q show ?thesis by (auto simp: to_numeric_def)
qed

lemma selected_year_cols_set:
  "set (selected_year_cols r cols) = {py_str y | y. fst r \<le> y \<and> y \<le> snd r \<and> py_str y \<in> set cols}"
  by (auto simp: selected_year_cols_def)

lemma selected_nonneg_is_numeral:
  assumes "0 \<le> fst r" "c \<in> set (selected_year_cols r cols)"
  shows "\<exists>n. c = str_nat n \<and> fst r \<le> int n \<and> int n \<le> snd r \<and> c \<in> set cols"
proof -
  from assms(2) obtain y where y: "fst r \<le> y" "y \<le> snd r" "c = py_str y" "py_str y \<in> set cols"
    by (auto simp: selected_year_cols_set)
  with assms(1) have "c = str_nat (nat y)" "int (nat y) = y" by (simp_all add: py_str_def)
  with y show ?thesis by metis
qed

lemma sub_member: "(i, r) \<in> set (sub t sel) \<Longrightarrow> i < length (rows t) \<and> rows t ! i = r"
  by (auto simp: sub_def in_set_enumerate_eq)

lemma long_frame_alt:
  "long_frame pn t sel =
     map (long_row_at pn t)
       (filter (\<lambda>(i, r). in_range (yr sel) (to_numeric pn (r ''Year''))) (sub t sel))"
  unfolding long_frame_def filter_map
  by (rule arg_cong [where f = "map _"], rule filter_cong) (auto simp: comp_def long_row_at_def)

lemma in_range_Some: "in_range r y \<Longrightarrow> y \<noteq> None"
  by (cases y) (auto simp: in_range_def)

lemma long_frame_years: "list_all (\<lambda>q. year q \<noteq> None) (long_frame pn t sel)"
  using in_range_Some by (fastforce simp: long_frame_def list_all_iff)

lemma reshape_long:
  "\<not> is_wide (columns t) \<Longrightarrow>
     reshape pn asrt t sel = Inr (sort_values asrt (dropna_year (long_frame pn t sel)))"
  by (simp add: reshape_def reshape_frame_def)

lemma reshape_wide:
  "is_wide (columns t) \<Longrightarrow> reshape pn asrt t sel = Inr ls \<Longrightarrow>
     selected_year_cols (yr sel) (columns t) \<noteq> [] \<and> \<not> melt_clash (columns t) \<and>
     reshape_frame pn t sel = Inr (wide_frame pn t sel (selected_year_cols (yr sel) (columns t))) \<and>
     ls = sort_values asrt (dropna_year (wide_frame pn t sel (selected_year_cols (yr sel) (columns t))))"
  by (auto simp: reshape_def reshape_frame_def Let_def split: if_splits)

lemma sub_idx_increasing: "sorted_wrt (<) (map fst (sub t sel))"
proof -
  have "sorted_wrt (<) (map fst (enumerate 0 (rows t)))" by (simp add: sorted_wrt_upt)
  then have "sorted_wrt (\<lambda>a b. fst a < fst b) (enumerate 0 (rows t))" by (simp only: sorted_wrt_map)
  then have "sorted_wrt (\<lambda>a b. fst a < fst b) (sub t sel)"
    unfolding sub_def by (rule sorted_wrt_filter)
  then show ?thesis by (simp only: sorted_wrt_map)
qed

lemma long_frame_idx_increasing: "sorted_wrt (\<lambda>a b. idx a < idx b) (long_frame pn t sel)"
proof -
  from sub_idx_increasing [of t sel]
  have "sorted_wrt (\<lambda>a b. fst a < fst b) (sub t sel)" by (simp only: sorted_wrt_map)
  then have "sorted_wrt (\<lambda>a b. idx (long_row_at pn t a) < idx (long_row_at pn t b)) (sub t sel)"
    by (rule sorted_wrt_mono_rel [rotated]) (auto simp: long_row_at_def)
  then have "sorted_wrt (\<lambda>a b. idx a < idx b) (map (long_row_at pn t) (sub t sel))"
    by (simp only: sorted_wrt_map)
  then show ?thesis unfolding long_frame_def by (rule sorted_wrt_filter)
qed

lemma wide_frame_idx_increasing: "sorted_wrt (\<lambda>a b. idx a < idx b) (wide_frame pn t sel vv)"
proof -
  let ?m = "melt (id_vars (columns t)) vv (sub t sel)"
  have "sorted_wrt (<) (map fst ?m)" by (simp add: melt_def sorted_wrt_upt)
  then have "sorted_wrt (\<lambda>a b. fst a < fst b) ?m" by (simp only: sorted_wrt_map)
  then have "sorted_wrt (\<lambda>a b.
      idx ((\<lambda>(i, idc, v, c). \<lparr>idx = i, year = to_numeric pn (CStr v), val = to_numeric pn c, ids = idc\<rparr>) a)
    < idx ((\<lambda>(i, idc, v, c). \<lparr>idx = i, year = to_numeric pn (CStr v), val = to_numeric pn c, ids = idc\<rparr>) b)) ?m"
    by (rule sorted_wrt_mono_rel [rotated]) auto
  then show ?thesis unfolding wide_frame_def by (simp only: sorted_wrt_map)
qed

lemma dropna_year_idx_increasing:
  assumes "sorted_wrt (\<lambda>a b. idx a < idx b) fr"
  shows "sorted_wrt (\<lambda>a b. idx a < idx b) (dropna_year fr)"
proof -
  from assms have "sorted_wrt (\<lambda>a b. idx a < idx b) (filter (\<lambda>q. year q \<noteq> None) fr)"
    by (rule sorted_wrt_filter)
  then have "sorted_wrt (<) (map idx (filter (\<lambda>q. year q \<noteq> None) fr))"
    by (simp only: sorted_wrt_map)
  then have "sorted_wrt (<) (map idx (dropna_year fr))" by (simp only: dropna_year_map_idx)
  then show ?thesis by (simp only: sorted_wrt_map)
qed

lemma reshape_frame_idx_increasing:
  "reshape_frame pn t sel = Inr fr \<Longrightarrow> sorted_wrt (\<lambda>a b. idx a < idx b) fr"
  by (auto simp: reshape_frame_def Let_def long_frame_idx_increasing wide_frame_idx_increasing
      split: if_splits)

lemma sort_values_ties:
  assumes ok: "argsort_ok asrt" and st: "argsort_stable asrt"
    and inc: "sorted_wrt (\<lambda>a b. idx a < idx b) fr"
  shows "ties_in_row_order (sort_values asrt fr)"
proof -
  let ?ks = "map year fr"
  let ?p = "asrt ?ks"
  from ok have "mset ?p = mset [0..<length ?ks]" by (simp add: argsort_ok_def)
  then have "set ?p = set [0..<length ?ks]" by (metis set_mset_mset)
  then have bound: "\<forall>i \<in> set ?p. i < length fr" by simp
  from st have s: "sorted_wrt (\<lambda>i j. ?ks ! i = ?ks ! j \<longrightarrow> i < j) ?p"
    by (simp add: argsort_stable_def)
  have "sorted_wrt (\<lambda>i j. year (fr ! i) = year (fr ! j) \<longrightarrow> idx (fr ! i) < idx (fr ! j)) ?p"
  proof (rule sorted_wrt_mono_rel [OF _ s])
    fix i j assume i: "i \<in> set ?p" and j: "j \<in> set ?p"
      and h: "?ks ! i = ?ks ! j \<longrightarrow> i < j"
    from i j bound have ij: "i < length fr" "j < length fr" by simp_all
    show "year (fr ! i) = year (fr ! j) \<longrightarrow> idx (fr ! i) < idx (fr ! j)"
    proof
      assume "year (fr ! i) = year (fr ! j)"
      with h ij have "i < j" by simp
      from sorted_wrt_nth_less [OF inc this ij(2)] show "idx (fr ! i) < idx (fr ! j)" .
    qed
  qed
  then show ?thesis
    by (simp add: ties_in_row_order_def sort_values_def sorted_wrt_map)
qed

text \<open>
  Where every year column is written as the plain numeral of its value, the script's
  selection and the spec's contract pick the same columns.
\<close>

lemma selected_year_cols_canonical:
  assumes r0: "0 \<le> fst r"
    and canon: "\<forall>c \<in> set (year_cols cols). \<exists>n. c = str_nat n"
  shows "set (selected_year_cols r cols) = set (spec_selected_year_cols r cols)"
proof (intro set_eqI iffI)
  fix c assume "c \<in> set (selected_year_cols r cols)"
  from selected_nonneg_is_numeral [OF r0 this] obtain n where
    n: "c = str_nat n" "fst r \<le> int n" "int n \<le> snd r" "c \<in> set cols" by blast
  then have "c \<in> set (year_cols cols)" "year_col_int c = Some (int n)"
    by (simp_all add: year_cols_def strip_str_nat isdigit_str_nat year_col_int_str_nat)
  with n show "c \<in> set (spec_selected_year_cols r cols)"
    by (simp add: spec_selected_year_cols_def)
next
  fix c assume "c \<in> set (spec_selected_year_cols r cols)"
  then obtain v where c: "c \<in> set (year_cols cols)" "year_col_int c = Some v"
    "fst r \<le> v" "v \<le> snd r"
    by (auto simp: spec_selected_year_cols_def split: option.splits)
  with canon obtain n where n: "c = str_nat n" by blast
  with c have "v = int n" by (simp add: year_col_int_str_nat)
  with n r0 c have "c = py_str v" by (simp add: py_str_def)
  moreover from c have "c \<in> set cols" by (simp add: year_cols_def)
  ultimately show "c \<in> set (selected_year_cols r cols)"
    using c by (auto simp: selected_year_cols_set)
qed

text \<open>The Years of a Wide LongSeries are whole numbers.\<close>

lemma wide_years_whole:
  assumes w: "is_wide (columns t)" and pn: "numeral_parser pn" and a: "argsort_ok asrt"
    and r0: "0 \<le> fst (yr sel)" and ls: "reshape pn asrt t sel = Inr ls" and q: "q \<in> set ls"
  shows "year q \<in> \<int>"
proof -
  let ?vv = "selected_year_cols (yr sel) (columns t)"
  let ?fr = "wide_frame pn t sel ?vv"
  from reshape_wide [OF w ls] have l: "ls = sort_values asrt (dropna_year ?fr)" by simp
  with q a have "q \<in> set (dropna_year ?fr)" by (simp add: sort_values_set)
  then obtain q0 where q0: "q0 \<in> set ?fr" "year q0 = Some (year q)"
    by (auto simp: dropna_year_set)
  from wide_frame_year [OF q0(1)] obtain v where v: "v \<in> set ?vv" "year q0 = pn v" by blast
  from selected_nonneg_is_numeral [OF r0 v(1)] obtain n where "v = str_nat n" by blast
  with pn v q0 have "year q = real n" by (simp add: numeral_parser_def)
  then show ?thesis by simp
qed

section \<open>Facts about the analytics\<close>

lemma counts_row_fields:
  "c_year (counts_row ls k) = k"
  "n_total (counts_row ls k) = length (filter (\<lambda>q. year q = k) ls)"
  "n_missing (counts_row ls k) = length (filter (\<lambda>q. year q = k \<and> val q = None) ls)"
  "missing_rate (counts_row ls k) =
     (if n_total (counts_row ls k) > 0
      then real (n_missing (counts_row ls k)) / real (n_total (counts_row ls k)) else 0)"
  by (simp_all add: counts_row_def Let_def conj_commute)

lemma counts_row_total_pos: "k \<in> set (map year ls) \<Longrightarrow> 0 < n_total (counts_row ls k)"
  by (auto simp: counts_row_fields length_greater_0_conv filter_empty_conv)

lemma counts_row_missing_le: "n_missing (counts_row ls k) \<le> n_total (counts_row ls k)"
proof -
  have "length (filter (\<lambda>q. val q = None) (filter (\<lambda>q. year q = k) ls))
      \<le> length (filter (\<lambda>q. year q = k) ls)"
    by (rule length_filter_le)
  then show ?thesis by (simp add: counts_row_def Let_def)
qed

lemma counts_row_rate_bounds:
  "0 \<le> missing_rate (counts_row ls k) \<and> missing_rate (counts_row ls k) \<le> 1"
  using counts_row_missing_le [of ls k]
  by (simp add: counts_row_fields(4) divide_le_eq_1)

lemma counts_years: "map c_year (counts ls) = sort (remdups (map year ls))"
  by (simp add: counts_def counts_row_fields comp_def)

lemma upto_ten_length: "length [a + 1..a + 10] = 10"
  by simp

lemma upto_ten_hd: "[a + 1..a + 10] = (a + 1) # [a + 2..a + 10]"
  by (simp add: upto_rec1)

lemma py_int_of_int: "x \<in> \<int> \<Longrightarrow> real_of_int (py_int x) = x"
  by (auto simp: py_int_def Ints_def)

text \<open>
  The closed form is a least-squares fit on every input: no line has a smaller sum of
  squared residuals.  Where all years are equal the normal equations still hold, with the
  slope 0 and the mean of the values as intercept.
\<close>

lemma sse_expand:
  "sum_list (map (\<lambda>(x, y). (y - (m * x + b))\<^sup>2) ps) =
     sum_list (map (\<lambda>(x, y). y * y) ps) - 2 * m * sum_list (map (\<lambda>(x, y). x * y) ps)
     - 2 * b * sum_list (map snd ps) + m\<^sup>2 * sum_list (map (\<lambda>(x, y). x * x) ps)
     + 2 * m * b * sum_list (map fst ps) + b\<^sup>2 * real (length ps)"
  by (induction ps) (auto simp: power2_eq_square algebra_simps)

lemma line_sq_expand:
  "sum_list (map (\<lambda>(x, y). (c * x + d)\<^sup>2) ps) =
     c\<^sup>2 * sum_list (map (\<lambda>(x, y). x * x) ps) + 2 * c * d * sum_list (map fst ps)
     + d\<^sup>2 * real (length ps)"
  by (induction ps) (auto simp: power2_eq_square algebra_simps)

lemma line_sq_nonneg: "0 \<le> sum_list (map (\<lambda>(x, y). (c * x + d)\<^sup>2) (ps :: (real \<times> real) list))"
  by (rule sum_list_nonneg) auto

lemma sq_dev_expand:
  "sum_list (map (\<lambda>x. (x - c)\<^sup>2) xs) =
     sum_list (map (\<lambda>x. x * x) xs) - 2 * c * sum_list xs + real (length xs) * c\<^sup>2"
  for c :: real
  by (induction xs) (auto simp: power2_eq_square algebra_simps)

lemma sum_prod_const:
  "\<forall>p \<in> set ps. fst p = c \<Longrightarrow>
     sum_list (map (\<lambda>(x, y). x * y) ps) = c * sum_list (map snd ps)"
  for c :: real
  by (induction ps) (auto simp: algebra_simps)

lemma degenerate_years:
  fixes xs ys :: "real list"
  assumes len: "length xs = length ys" and ne: "xs \<noteq> []"
    and D: "real (length xs) * sum_list (map (\<lambda>x. x * x) xs) - sum_list xs * sum_list xs = 0"
  shows "real (length xs) * sum_list (map (\<lambda>(x, y). x * y) (zip xs ys)) = sum_list xs * sum_list ys"
proof -
  define n where "n = real (length xs)"
  define c where "c = sum_list xs / n"
  have n0: "n \<noteq> 0" using ne by (simp add: n_def)
  have sx: "sum_list xs = n * c" using n0 by (simp add: c_def)
  from D have "n * sum_list (map (\<lambda>x. x * x) xs) = sum_list xs * sum_list xs"
    by (simp add: n_def)
  then have sxx: "n * sum_list (map (\<lambda>x. x * x) xs) = (n * c) * (n * c)"
    by (simp only: sx)
  then have "sum_list (map (\<lambda>x. x * x) xs) = n * c * c" using n0 by (simp add: algebra_simps)
  then have "sum_list (map (\<lambda>x. (x - c)\<^sup>2) xs) = 0"
    unfolding sq_dev_expand sx n_def [symmetric] by (simp add: power2_eq_square algebra_simps)
  moreover have "\<And>v. v \<in> set (map (\<lambda>x. (x - c)\<^sup>2) xs) \<Longrightarrow> 0 \<le> v" by auto
  ultimately have "\<forall>v \<in> set (map (\<lambda>x. (x - c)\<^sup>2) xs). v = 0"
    by (simp only: sum_list_nonneg_eq_0_iff)
  then have all: "\<forall>x \<in> set xs. x = c" by simp
  have "\<forall>p \<in> set (zip xs ys). fst p = c"
    using all by (auto dest: set_zip_leftD)
  then have "sum_list (map (\<lambda>(x, y). x * y) (zip xs ys)) = c * sum_list (map snd (zip xs ys))"
    by (rule sum_prod_const)
  also have "map snd (zip xs ys) = ys" using len by simp
  finally show ?thesis unfolding n_def [symmetric] sx by simp
qed

lemma lsq_fit_minimises:
  assumes len: "length xs = length ys"
  shows "sse xs ys (fst (lsq_fit xs ys)) (snd (lsq_fit xs ys)) \<le> sse xs ys m' b'"
proof (cases "xs = []")
  case True
  then show ?thesis by (simp add: sse_def)
next
  case ne: False
  let ?ps = "zip xs ys"
  define n where "n = real (length xs)"
  define sx where "sx = sum_list xs"
  define sy where "sy = sum_list ys"
  define sxx where "sxx = sum_list (map (\<lambda>x. x * x) xs)"
  define sxy where "sxy = sum_list (map (\<lambda>(x, y). x * y) ?ps)"
  define syy where "syy = sum_list (map (\<lambda>(x, y). y * y) ?ps)"
  define m where "m = (n * sxy - sx * sy) / (n * sxx - sx * sx)"
  define b where "b = (sy - m * sx) / n"
  have fit: "lsq_fit xs ys = (m, b)"
    by (simp add: lsq_fit_def Let_def m_def b_def n_def sx_def sy_def sxx_def sxy_def)
  have fs: "map fst ?ps = xs" "map snd ?ps = ys" using len by simp_all
  have lp: "real (length ?ps) = n" using len by (simp add: n_def)
  have sxx': "sum_list (map (\<lambda>(x, y). x * x) ?ps) = sxx"
  proof -
    have "map (\<lambda>(x, y). x * x) ?ps = map (\<lambda>x. x * x) (map fst ?ps)" by (simp add: case_prod_beta)
    then show ?thesis by (simp only: fs sxx_def)
  qed
  have sx': "sum_list (map fst ?ps) = sx" by (simp only: fs sx_def)
  have sy': "sum_list (map snd ?ps) = sy" by (simp only: fs sy_def)
  have n0: "n \<noteq> 0" using ne by (simp add: n_def)
  have ne2: "m * sx + b * n = sy" using n0 by (simp add: b_def)
  have bn: "b * n = sy - m * sx" using n0 by (simp add: b_def)
  have ne1: "m * sxx + b * sx = sxy"
  proof (cases "n * sxx - sx * sx = 0")
    case True
    then have m0: "m = 0" by (simp add: m_def)
    from True have "real (length xs) * sum_list (map (\<lambda>x. x * x) xs) - sum_list xs * sum_list xs = 0"
      by (simp only: n_def sxx_def sx_def)
    from degenerate_years [OF len ne this] have "n * sxy = sx * sy"
      by (simp only: n_def sxy_def sx_def sy_def)
    moreover have "n * (b * sx) = (b * n) * sx" by simp
    ultimately have "n * (b * sx) = n * sxy" by (simp only: bn m0) simp
    with n0 show ?thesis by (simp add: m0)
  next
    case D': False
    have mD: "m * (n * sxx - sx * sx) = n * sxy - sx * sy" using D' by (simp add: m_def)
    have "n * (m * sxx + b * sx) = m * n * sxx + (b * n) * sx" by (simp add: algebra_simps)
    also have "\<dots> = m * n * sxx + (sy - m * sx) * sx" by (simp only: bn)
    also have "\<dots> = m * (n * sxx - sx * sx) + sx * sy" by (simp add: algebra_simps)
    also have "\<dots> = n * sxy" by (simp only: mD)
    finally show ?thesis using n0 by simp
  qed
  have Q: "sse xs ys c d = syy - 2 * c * sxy - 2 * d * sy + c\<^sup>2 * sxx + 2 * c * d * sx + d\<^sup>2 * n" for c d
    unfolding sse_def sse_expand sxx' sx' sy' lp by (simp add: sxy_def syy_def)
  have "sse xs ys m' b' - sse xs ys m b =
      (m' - m)\<^sup>2 * sxx + 2 * (m' - m) * (b' - b) * sx + (b' - b)\<^sup>2 * n"
    unfolding Q ne1 [symmetric] ne2 [symmetric] by (simp add: power2_eq_square algebra_simps)
  also have "\<dots> = sum_list (map (\<lambda>(x, y). ((m' - m) * x + (b' - b))\<^sup>2) ?ps)"
    unfolding line_sq_expand sxx' sx' lp by simp
  also have "\<dots> \<ge> 0" by (rule line_sq_nonneg)
  finally show ?thesis by (simp add: fit)
qed

lemma polyfit_ok_lsq_fit: "polyfit_ok lsq_fit"
  by (simp add: polyfit_ok_def least_squares_def lsq_fit_minimises)




lemma clean_lengths: "length (map year (clean ls)) = length (List.map_filter val (clean ls))"
  by (induction ls) (auto simp: clean_def List.map_filter_simps)


section \<open>The examples, evaluated\<close>

lemmas string_eval = isdigit_def strip_def py_isspace_def py_isdigit_char_def
  py_isdecimal_char_def whitespace_chars_def digit_chars_def decimal_chars_def
  superscript_chars_def

lemma long_cols_not_wide: "\<not> is_wide long_cols"
  by (simp add: is_wide_def year_cols_def long_cols_def string_eval)

lemma long_table_not_wide: "\<not> is_wide (columns (long_table yvs))"
  by (simp add: long_table_def long_cols_not_wide)

lemma long_table_valid: "validate (long_table yvs) = Inr ()"
  by (simp add: validate_def needed_def long_table_def long_cols_not_wide) (simp add: long_cols_def)

lemma filter_all: "list_all P xs \<Longrightarrow> filter P xs = xs"
  by (induction xs) auto

lemma long_row_of_cells:
  "long_row_of y v ''Country Name'' = CStr ''A''" "long_row_of y v ''Indicator Name'' = CStr ''I''"
  "long_row_of y v ''Year'' = y" "long_row_of y v ''Value'' = v"
  by (simp_all add: long_row_of_def mk_row_def)

lemma sel_A_fields:
  "country (sel_A r) = CStr ''A''" "indicator (sel_A r) = CStr ''I''" "yr (sel_A r) = r"
  by (simp_all add: sel_A_def)

lemma sub_long_table:
  "sub (long_table yvs) (sel_A r) = enumerate 0 (map (\<lambda>(y, v). long_row_of y v) yvs)"
proof -
  have rows: "rows (long_table yvs) = map (\<lambda>(y, v). long_row_of y v) yvs"
    by (simp add: long_table_def)
  show ?thesis
    unfolding sub_def rows
    by (rule filter_all)
      (auto simp: list_all_iff in_set_enumerate_eq sel_A_fields cell_eq_def long_row_of_cells
        split: prod.splits)
qed

lemma long_row_at_long_table:
  "long_row_at pn (long_table yvs) (i, long_row_of y v) =
     \<lparr>idx = i, year = to_numeric pn y, val = to_numeric pn v, ids = id_A\<rparr>"
  by (simp add: long_row_at_def long_row_of_cells long_table_def long_cols_def id_A_def)

lemma digits_parser_2000: "digits_parser ''2000'' = Some 2000"
  by (simp add: digits_parser_def string_eval digits_val_def digit_val_def)

lemma digits_parser_2001: "digits_parser ''2001'' = Some 2001"
  by (simp add: digits_parser_def string_eval digits_val_def digit_val_def)

lemma digits_parser_2002: "digits_parser ''2002'' = Some 2002"
  by (simp add: digits_parser_def string_eval digits_val_def digit_val_def)

lemma digits_parser_abc: "digits_parser ''abc'' = None"
  by (simp add: digits_parser_def string_eval)

lemma digits_parser_na: "digits_parser ''n/a'' = None"
  by (simp add: digits_parser_def string_eval)

lemmas parser_eval = digits_parser_2000 digits_parser_2001 digits_parser_2002
  digits_parser_abc digits_parser_na

lemma reshape_long_table:
  "reshape pn asrt (long_table yvs) sel =
     Inr (sort_values asrt (dropna_year (long_frame pn (long_table yvs) sel)))"
  by (rule reshape_long) (rule long_table_not_wide)

subsection \<open>The Long scenario\<close>

lemma sub_scenario_long:
  "sub scenario_long (sel_A r) =
     [(0, long_row_of (CStr ''2000'') (CNum 10)), (1, long_row_of (CStr ''abc'') (CNum 20)),
      (2, long_row_of (CStr ''2002'') (CStr ''n/a''))]"
  by (simp add: scenario_long_def sub_long_table enumerate_eq_zip upt_rec_numeral)

lemma long_frame_scenario:
  "long_frame digits_parser scenario_long (sel_A (2000, 2002)) =
     [\<lparr>idx = 0, year = Some 2000, val = Some 10, ids = id_A\<rparr>,
      \<lparr>idx = 2, year = Some 2002, val = None, ids = id_A\<rparr>]"
  by (simp add: long_frame_alt sub_scenario_long to_numeric_def parser_eval in_range_def
      sel_A_fields long_row_of_cells)
    (simp add: scenario_long_def long_row_at_long_table to_numeric_def parser_eval)

lemma reshape_scenario_long:
  "reshape digits_parser stable_argsort scenario_long (sel_A (2000, 2002)) = Inr scenario_long_series"
  unfolding scenario_long_def reshape_long_table
  unfolding scenario_long_def [symmetric] long_frame_scenario scenario_long_series_def
  by (simp add: dropna_year_Cons dropna_year_Nil sort_values_def stable_argsort_def)

lemma validate_scenario_long: "validate scenario_long = Inr ()"
  by (simp add: scenario_long_def long_table_valid)

lemma clean_scenario_long:
  "clean scenario_long_series = [\<lparr>idx = 0, year = 2000, val = Some 10, ids = id_A\<rparr>]"
  by (simp add: clean_def scenario_long_series_def)

subsection \<open>Two rows of one year\<close>

lemma sub_tied_long:
  "sub tied_long (sel_A r) =
     [(0, long_row_of (CNum 2001) (CNum 1)), (1, long_row_of (CNum 2001) (CNum 2)),
      (2, long_row_of (CNum 2000) (CNum 3)), (3, long_row_of (CNum 2000) (CNum 4))]"
  by (simp add: tied_long_def sub_long_table enumerate_eq_zip upt_rec_numeral)

lemma long_frame_tied:
  "long_frame pn tied_long (sel_A (2000, 2001)) =
     [\<lparr>idx = 0, year = Some 2001, val = Some 1, ids = id_A\<rparr>,
      \<lparr>idx = 1, year = Some 2001, val = Some 2, ids = id_A\<rparr>,
      \<lparr>idx = 2, year = Some 2000, val = Some 3, ids = id_A\<rparr>,
      \<lparr>idx = 3, year = Some 2000, val = Some 4, ids = id_A\<rparr>]"
  by (simp add: long_frame_alt sub_tied_long to_numeric_def in_range_def
      sel_A_fields long_row_of_cells)
    (simp add: tied_long_def long_row_at_long_table to_numeric_def)

lemma vector_argsort_tied: "vector_argsort [2001, 2001, 2000, 2000] = [3, 2, 1, 0]"
  by (simp add: vector_argsort_def network4_def cswap_def)

lemma stable_argsort_tied: "stable_argsort [2001, 2001, 2000, 2000] = [2, 3, 0, 1]"
  by (simp add: stable_argsort_def upt_rec_numeral)

lemma reshape_tied_long_network:
  "reshape pn vector_argsort tied_long (sel_A (2000, 2001)) = Inr tied_series_network"
  unfolding tied_long_def reshape_long_table
  unfolding tied_long_def [symmetric] long_frame_tied tied_series_network_def
  by (simp add: dropna_year_Cons dropna_year_Nil sort_values_def vector_argsort_tied)

lemma reshape_tied_long_stable:
  "reshape pn stable_argsort tied_long (sel_A (2000, 2001)) = Inr tied_series"
  unfolding tied_long_def reshape_long_table
  unfolding tied_long_def [symmetric] long_frame_tied tied_series_def
  by (simp add: dropna_year_Cons dropna_year_Nil sort_values_def stable_argsort_tied)

lemma tied_series_network_not_in_row_order: "\<not> ties_in_row_order tied_series_network"
  by (simp add: ties_in_row_order_def tied_series_network_def)

subsection \<open>A fractional year\<close>

lemma sub_half_year_long:
  "sub half_year_long (sel_A r) =
     [(0, long_row_of (CNum 1998) (CNum 0)), (1, long_row_of (CNum (3999 / 2)) (CNum 3)),
      (2, long_row_of (CNum 2005) (CNum 7))]"
  by (simp add: half_year_long_def sub_long_table enumerate_eq_zip upt_rec_numeral)

lemma long_frame_half_year:
  "long_frame digits_parser half_year_long (sel_A (1998, 2000)) =
     [\<lparr>idx = 0, year = Some 1998, val = Some 0, ids = id_A\<rparr>,
      \<lparr>idx = 1, year = Some (3999 / 2), val = Some 3, ids = id_A\<rparr>]"
  by (simp add: long_frame_alt sub_half_year_long to_numeric_def in_range_def
      sel_A_fields long_row_of_cells)
    (simp add: half_year_long_def long_row_at_long_table to_numeric_def)

lemma reshape_half_year_long:
  "reshape digits_parser stable_argsort half_year_long (sel_A (1998, 2000)) = Inr half_year_series"
  unfolding half_year_long_def reshape_long_table
  unfolding half_year_long_def [symmetric] long_frame_half_year half_year_series_def
  by (simp add: dropna_year_Cons dropna_year_Nil sort_values_def stable_argsort_def)

lemma clean_half_year: "clean half_year_series = half_year_series"
  by (simp add: clean_def half_year_series_def)

lemma upto_2000_2009: "[2000..2009] = [2000, 2001, 2002, 2003, 2004, 2005, 2006, 2007, 2008, 2009 :: int]"
  by (simp add: upto_rec_numeral)

lemma max_half_year: "Max (set (map year half_year_series)) = 3999 / 2"
  by (simp add: half_year_series_def)

lemma lsq_fit_half_year: "lsq_fit [1998, 3999 / 2] [0, 3] = (2, - 3996)"
  by (simp add: lsq_fit_def Let_def)

lemma forecast_half_year: "forecast lsq_fit (clean half_year_series) = Inr half_year_forecast"
  unfolding clean_half_year forecast_def max_half_year
  by (simp add: half_year_series_def List.map_filter_simps lsq_fit_half_year py_int_def
      upto_2000_2009 half_year_forecast_def)

subsection \<open>The Wide scenario\<close>

lemma py_str_2000: "py_str 2000 = ''2000''"
  by (simp add: py_str_def str_nat.simps digit_char_def decimal_chars_def)

lemma py_str_2001: "py_str 2001 = ''2001''"
  by (simp add: py_str_def str_nat.simps digit_char_def decimal_chars_def)

lemma py_str_2002: "py_str 2002 = ''2002''"
  by (simp add: py_str_def str_nat.simps digit_char_def decimal_chars_def)

lemma upto_2000_2002: "[2000..2002] = [2000, 2001, 2002 :: int]"
  by (simp add: upto_rec_numeral)

lemma upto_2000_2001: "[2000..2001] = [2000, 2001 :: int]"
  by (simp add: upto_rec_numeral)

lemma wide_cols_wide: "is_wide wide_cols"
  by (simp add: is_wide_def year_cols_def wide_cols_def string_eval)

lemma year_cols_wide_cols: "year_cols wide_cols = [''2000'', ''2001'', ''2002'']"
  by (simp add: year_cols_def wide_cols_def string_eval)

lemma id_vars_wide_cols: "id_vars wide_cols = [''Country Name'', ''Indicator Name'']"
  by (simp add: id_vars_def year_cols_wide_cols) (simp add: wide_cols_def)

lemma selected_wide_cols: "selected_year_cols (2000, 2002) wide_cols = [''2000'', ''2001'', ''2002'']"
  by (simp add: selected_year_cols_def upto_2000_2002 py_str_2000 py_str_2001 py_str_2002 wide_cols_def)

lemma columns_scenario_wide: "columns scenario_wide = wide_cols"
  by (simp add: scenario_wide_def)

lemma sub_scenario_wide: "sub scenario_wide (sel_A r) = [(0, wide_row)]"
  by (simp add: sub_def scenario_wide_def sel_A_fields cell_eq_def wide_row_def mk_row_def)

lemma wide_frame_scenario:
  "wide_frame digits_parser scenario_wide (sel_A (2000, 2002)) [''2000'', ''2001'', ''2002''] =
     [\<lparr>idx = 0, year = Some 2000, val = Some 10, ids = id_A\<rparr>,
      \<lparr>idx = 1, year = Some 2001, val = None, ids = id_A\<rparr>,
      \<lparr>idx = 2, year = Some 2002, val = Some 30, ids = id_A\<rparr>]"
  by (simp add: wide_frame_def sub_scenario_wide melt_def to_numeric_def parser_eval id_A_def)
    (simp add: columns_scenario_wide id_vars_wide_cols wide_row_def mk_row_def)

lemma wide_cols_no_clash: "\<not> melt_clash wide_cols"
  by (simp add: melt_clash_def wide_cols_def)

lemma reshape_scenario_wide:
  "reshape digits_parser stable_argsort scenario_wide (sel_A (2000, 2002)) = Inr scenario_wide_series"
proof -
  have "reshape_frame digits_parser scenario_wide (sel_A (2000, 2002)) =
      Inr (wide_frame digits_parser scenario_wide (sel_A (2000, 2002)) [''2000'', ''2001'', ''2002''])"
    by (simp add: reshape_frame_def columns_scenario_wide wide_cols_wide wide_cols_no_clash
        sel_A_fields selected_wide_cols)
  then show ?thesis
    unfolding reshape_def wide_frame_scenario scenario_wide_series_def
    by (simp add: dropna_year_Cons dropna_year_Nil sort_values_def stable_argsort_def)
qed

lemma clean_scenario_wide:
  "clean scenario_wide_series =
     [\<lparr>idx = 0, year = 2000, val = Some 10, ids = id_A\<rparr>,
      \<lparr>idx = 2, year = 2002, val = Some 30, ids = id_A\<rparr>]"
  by (simp add: clean_def scenario_wide_series_def)

lemma lsq_fit_scenario_wide: "lsq_fit [2000, 2002] [10, 30] = (10, - 19990)"
  by (simp add: lsq_fit_def Let_def)

lemma upto_2003_2012: "[2003..2012] = [2003, 2004, 2005, 2006, 2007, 2008, 2009, 2010, 2011, 2012 :: int]"
  by (simp add: upto_rec_numeral)

lemma counts_scenario_wide: "counts scenario_wide_series = scenario_wide_counts"
  by (simp add: counts_def scenario_wide_series_def counts_row_def scenario_wide_counts_def)

subsection \<open>The padded header\<close>

lemmas int_eval = year_col_int_def int_space_def int_space_chars_def int_body_ok_def
  py_isdecimal_char_def decimal_chars_def digits_val_def digit_val_def

lemma year_col_int_padded_2001: "year_col_int '' 2001'' = Some 2001"
  by (simp add: int_eval)

lemma year_col_int_2000: "year_col_int ''2000'' = Some 2000"
  by (simp add: int_eval)

lemma year_col_int_2001: "year_col_int ''2001'' = Some 2001"
  by (simp add: int_eval)

lemma year_col_int_2002: "year_col_int ''2002'' = Some 2002"
  by (simp add: int_eval)

lemma year_cols_padded: "year_cols padded_cols = [''2000'', '' 2001'']"
  by (simp add: year_cols_def padded_cols_def string_eval)

lemma padded_cols_wide: "is_wide padded_cols"
  by (simp add: is_wide_def year_cols_padded)

lemma year_bounds_padded: "year_bounds pn padded_table = Inr (2000, 2001)"
  by (simp add: year_bounds_def padded_table_def padded_cols_wide year_cols_padded
      List.map_filter_simps year_col_int_2000 year_col_int_padded_2001)

lemma slider_examples:
  "slider_allows (1998, 2005) (1998, 2000)" "slider_allows (2000, 2001) (2000, 2001)"
  "slider_allows (2000, 2002) (2000, 2002)"
  by (simp_all add: slider_allows_def slider_def)

lemma validate_padded: "validate padded_table = Inr ()"
  by (simp add: validate_def needed_def padded_table_def padded_cols_wide) (simp add: padded_cols_def)

lemma selected_padded: "selected_year_cols (2000, 2001) padded_cols = [''2000'']"
  by (simp add: selected_year_cols_def upto_2000_2001 py_str_2000 py_str_2001 padded_cols_def)

lemma id_vars_padded: "id_vars padded_cols = [''Country Name'', ''Indicator Name'']"
  by (simp add: id_vars_def year_cols_padded) (simp add: padded_cols_def)

lemma sub_padded: "sub padded_table (sel_A r) = [(0, padded_row)]"
  by (simp add: sub_def padded_table_def sel_A_fields cell_eq_def padded_row_def mk_row_def)

lemma columns_padded: "columns padded_table = padded_cols"
  by (simp add: padded_table_def)

lemma wide_frame_padded:
  "wide_frame digits_parser padded_table (sel_A (2000, 2001)) [''2000''] =
     [\<lparr>idx = 0, year = Some 2000, val = Some 10, ids = id_A\<rparr>]"
  by (simp add: wide_frame_def sub_padded melt_def to_numeric_def parser_eval id_A_def)
    (simp add: columns_padded id_vars_padded padded_row_def mk_row_def)

lemma padded_no_clash: "\<not> melt_clash padded_cols"
  by (simp add: melt_clash_def padded_cols_def)

lemma reshape_padded:
  "reshape digits_parser stable_argsort padded_table (sel_A (2000, 2001)) = Inr padded_series"
proof -
  have "reshape_frame digits_parser padded_table (sel_A (2000, 2001)) =
      Inr (wide_frame digits_parser padded_table (sel_A (2000, 2001)) [''2000''])"
    by (simp add: reshape_frame_def columns_padded padded_cols_wide padded_no_clash
        sel_A_fields selected_padded)
  then show ?thesis
    unfolding reshape_def wide_frame_padded padded_series_def
    by (simp add: dropna_year_Cons dropna_year_Nil sort_values_def stable_argsort_def)
qed

subsection \<open>The slider on the examples\<close>

lemma year_bounds_long_table:
  "year_bounds pn (long_table yvs) =
     (let ys = List.map_filter (\<lambda>(y, v). to_numeric pn y) yvs
      in if ys = [] then Inl NaNYearError else Inr (py_int (Min (set ys)), py_int (Max (set ys))))"
proof -
  have "List.map_filter (\<lambda>r. to_numeric pn (r ''Year'')) (map (\<lambda>(y, v). long_row_of y v) yvs) =
      List.map_filter (\<lambda>(y, v). to_numeric pn y) yvs"
    by (induction yvs) (auto simp: List.map_filter_simps long_row_of_cells split: option.splits)
  then show ?thesis
    using long_table_not_wide [of yvs] by (simp add: year_bounds_def long_table_def)
qed

lemma py_int_numeral: "py_int (numeral n) = numeral n"
  by (simp add: py_int_def)

lemma year_bounds_half_year: "year_bounds digits_parser half_year_long = Inr (1998, 2005)"
  by (simp add: half_year_long_def year_bounds_long_table List.map_filter_simps to_numeric_def
      py_int_numeral)

lemma year_bounds_tied: "year_bounds pn tied_long = Inr (2000, 2001)"
  by (simp add: tied_long_def year_bounds_long_table List.map_filter_simps to_numeric_def
      py_int_numeral)

lemma year_bounds_scenario_long: "year_bounds digits_parser scenario_long = Inr (2000, 2002)"
  by (simp add: scenario_long_def year_bounds_long_table List.map_filter_simps to_numeric_def
      parser_eval py_int_numeral)

lemma year_bounds_scenario_wide: "year_bounds pn scenario_wide = Inr (2000, 2002)"
  by (simp add: year_bounds_def columns_scenario_wide wide_cols_wide year_cols_wide_cols
      List.map_filter_simps year_col_int_2000 year_col_int_2001 year_col_int_2002)

subsection \<open>The points on a line\<close>













subsection \<open>The superscript header\<close>

lemma year_cols_superscript: "year_cols superscript_cols = [[CHR 0xB2]]"
  by (simp add: year_cols_def superscript_cols_def string_eval)

lemma superscript_not_year_column: "\<not> spec_year_column [CHR 0xB2]"
proof
  assume "spec_year_column [CHR 0xB2]"
  then obtain l d r where c: "[CHR 0xB2] = l @ d @ r" and d: "d \<noteq> []" "list_all py_isdecimal_char d"
    unfolding spec_year_column_def by blast
  from d have "hd d \<in> set d" "py_isdecimal_char (hd d)" by (simp_all add: list_all_iff)
  moreover from c have "set d \<subseteq> {CHR 0xB2}" by (metis set_append Un_upper1 Un_upper2 subset_trans list.simps(15) empty_set)
  ultimately have "py_isdecimal_char (CHR 0xB2)" by auto
  then show False by (simp add: py_isdecimal_char_def decimal_chars_def)
qed

lemma superscript_cols_no_year_column: "\<not> (\<exists>c \<in> set superscript_cols. spec_year_column c)"
proof
  assume "\<exists>c \<in> set superscript_cols. spec_year_column c"
  then obtain c where c: "c \<in> set superscript_cols" "spec_year_column c" by blast
  then have "c \<in> set (year_cols superscript_cols)"
    by (simp add: year_cols_def spec_year_column_is_year_col)
  then have "c = [CHR 0xB2]" by (simp add: year_cols_superscript)
  with c superscript_not_year_column show False by simp
qed

lemma superscript_cols_wide: "is_wide superscript_cols"
  by (simp add: is_wide_def year_cols_superscript)

lemma validate_superscript: "validate superscript_table = Inr ()"
  by (simp add: validate_def needed_def superscript_table_def superscript_cols_wide)
    (simp add: superscript_cols_def)

lemma year_col_int_superscript: "year_col_int [CHR 0xB2] = None"
  by (simp add: int_eval)

lemma year_bounds_superscript: "year_bounds pn superscript_table = Inl IntValueError"
  by (simp add: year_bounds_def superscript_table_def superscript_cols_wide year_cols_superscript
      List.map_filter_simps year_col_int_superscript)

subsection \<open>No Year that parses\<close>

lemma year_bounds_unparsed: "year_bounds digits_parser unparsed_long = Inl NaNYearError"
  by (simp add: unparsed_long_def year_bounds_long_table List.map_filter_simps to_numeric_def
      parser_eval)

section \<open>Claims about the schema detector\<close>

text \<open>
  Claim C2, on the code.  The spec classifies a table as Wide if and only if some column
  name, after trimming white space, consists entirely of decimal digits.  Line 17 tests
  \<open>str(c).strip().isdigit()\<close>, and \<open>isdigit\<close> is true of more than the decimal digits: of the
  superscripts 0xB2, 0xB3 and 0xB9 among the first 256 code points.  (Lemmas
  \<open>is_wide_iff_digit_block\<close> and \<open>is_wide_iff_without_superscripts\<close>: the two agree on every
  header in which none of these three occurs.)  A valid Long table with one more column,
  named by the superscript two, has no column of decimal digits and is Long for the spec;
  the script takes that column for a year column, classifies the table as Wide, accepts it,
  and line 46 raises on \<open>int\<close> of the name.
\<close>

theorem C2_superscript_column_wide:
  "year_cols (columns superscript_table) = [[CHR 0xB2]] \<and>
   is_wide (columns superscript_table) \<and>
   \<not> (\<exists>c \<in> set (columns superscript_table). spec_year_column c) \<and>
   validate superscript_table = Inr () \<and>
   year_bounds digits_parser superscript_table = Inl IntValueError"
proof (intro conjI)
  have c: "columns superscript_table = superscript_cols" by (simp add: superscript_table_def)
  show "year_cols (columns superscript_table) = [[CHR 0xB2]]"
    unfolding c by (rule year_cols_superscript)
  show "is_wide (columns superscript_table)" unfolding c by (rule superscript_cols_wide)
  show "\<not> (\<exists>c \<in> set (columns superscript_table). spec_year_column c)"
    unfolding c by (rule superscript_cols_no_year_column)
  show "validate superscript_table = Inr ()" by (rule validate_superscript)
  show "year_bounds digits_parser superscript_table = Inl IntValueError"
    by (rule year_bounds_superscript)
qed

section \<open>Claims about the forecast\<close>

text \<open>
  Claim C1, as stated: whenever the clean series has at least two points, the forecast has
  exactly 10 records whose years are consecutive integers starting at (max Year in
  Clean) + 1, each predicted value being \<open>m * Year + b\<close> for the fitted \<open>(m, b)\<close>.

  The statement fails where a Year of a Long table is not a whole number: line 97 starts at
  \<open>int(max) + 1\<close>.  The spec's LongRecord has an integer Year, but the Long branch keeps
  whatever number \<open>pd.to_numeric\<close> reads in the Year column, and nothing rounds it.  For the
  Year column 1998, 1999.5, 2005 and the year range 1998 to 2000 the clean years are 1998
  and 1999.5; the forecast starts at 2000, and max + 1 is 2000.5.
\<close>

theorem C1_fractional_year_counterexample:
  "validate half_year_long = Inr () \<and>
   year_bounds digits_parser half_year_long = Inr (1998, 2005) \<and>
   slider_allows (1998, 2005) (1998, 2000) \<and>
   reshape digits_parser stable_argsort half_year_long (sel_A (1998, 2000)) = Inr half_year_series \<and>
   2 \<le> length (clean half_year_series) \<and>
   forecast lsq_fit (clean half_year_series) = Inr half_year_forecast \<and>
   real_of_int (fst (hd half_year_forecast)) \<noteq> Max (set (map year (clean half_year_series))) + 1"
proof (intro conjI)
  show "validate half_year_long = Inr ()" by (simp add: half_year_long_def long_table_valid)
  show "year_bounds digits_parser half_year_long = Inr (1998, 2005)" by (rule year_bounds_half_year)
  show "slider_allows (1998, 2005) (1998, 2000)" by (rule slider_examples)
  show "reshape digits_parser stable_argsort half_year_long (sel_A (1998, 2000)) = Inr half_year_series"
    by (rule reshape_half_year_long)
  show "2 \<le> length (clean half_year_series)"
    unfolding clean_half_year by (simp add: half_year_series_def)
  show "forecast lsq_fit (clean half_year_series) = Inr half_year_forecast"
    by (rule forecast_half_year)
  show "real_of_int (fst (hd half_year_forecast)) \<noteq> Max (set (map year (clean half_year_series))) + 1"
    unfolding clean_half_year max_half_year by (simp add: half_year_forecast_def)
qed

text \<open>
  Claim C1, amended: whenever the clean series has at least two points, the forecast has
  exactly 10 records; their years are the consecutive integers from \<open>a + 1\<close> to \<open>a + 10\<close>,
  where \<open>a\<close> is the greatest Year of the clean series truncated towards zero; the pair
  \<open>(m, b)\<close> of the fit is the slope and intercept of a least-squares fit to the clean years
  and values, and each predicted value is \<open>m * Year + b\<close>; and where the greatest Year is a
  whole number, the first forecast year is that Year plus one.  The fit \<open>pf\<close> is any function
  with the contract \<open>polyfit_ok\<close>.  (Lemma \<open>wide_years_whole\<close>: every Year of a Wide table is
  a whole number.)
\<close>

theorem C1_forecast_ten_years:
  assumes "polyfit_ok pf" and "2 \<le> length (clean ls)"
  shows "\<exists>recs. forecast pf (clean ls) = Inr recs \<and> length recs = 10 \<and>
     map fst recs = [py_int (Max (set (map year (clean ls)))) + 1..py_int (Max (set (map year (clean ls)))) + 10] \<and>
     least_squares (map year (clean ls)) (List.map_filter val (clean ls))
       (fst (pf (map year (clean ls)) (List.map_filter val (clean ls))))
       (snd (pf (map year (clean ls)) (List.map_filter val (clean ls)))) \<and>
     list_all (\<lambda>(fy, p). p = fst (pf (map year (clean ls)) (List.map_filter val (clean ls))) * real_of_int fy
                              + snd (pf (map year (clean ls)) (List.map_filter val (clean ls)))) recs \<and>
     (Max (set (map year (clean ls))) \<in> \<int> \<longrightarrow>
        real_of_int (fst (hd recs)) = Max (set (map year (clean ls))) + 1)"
proof -
  let ?x = "map year (clean ls)"
  let ?y = "List.map_filter val (clean ls)"
  let ?a = "py_int (Max (set ?x))"
  let ?m = "fst (pf ?x ?y)" and ?b = "snd (pf ?x ?y)"
  let ?fy = "[?a + 1..?a + 10]"
  let ?recs = "zip ?fy (map (\<lambda>fy. ?m * real_of_int fy + ?b) ?fy)"
  have f: "forecast pf (clean ls) = Inr ?recs"
    using assms(2) by (simp add: forecast_def Let_def split: prod.splits)
  have l: "length ?recs = 10" by simp
  have y: "map fst ?recs = ?fy" by simp
  have q: "least_squares ?x ?y ?m ?b"
    using assms(1) clean_lengths [of ls] unfolding polyfit_ok_def by blast
  have p: "list_all (\<lambda>(fy, p). p = ?m * real_of_int fy + ?b) ?recs"
    by (auto simp: list_all_iff set_zip)
  have h: "fst (hd ?recs) = ?a + 1"
    by (subst upto_ten_hd)+ simp
  have i: "Max (set ?x) \<in> \<int> \<longrightarrow> real_of_int (fst (hd ?recs)) = Max (set ?x) + 1"
    unfolding h by (simp add: py_int_of_int)
  from f l y q p i show ?thesis by blast
qed

text \<open>
  The Wide scenario: the clean points are (2000, 10) and (2002, 30), the least-squares line
  is \<open>10 * Year - 19990\<close>, and the forecast runs from 2003 to 2012.
\<close>

theorem C1_forecast_witness:
  "polyfit_ok lsq_fit \<and> 2 \<le> length (clean scenario_wide_series) \<and>
   forecast lsq_fit (clean scenario_wide_series) = Inr scenario_wide_forecast \<and>
   length scenario_wide_forecast = 10 \<and>
   map fst scenario_wide_forecast = [2003..2012] \<and>
   least_squares [2000, 2002] [10, 30] 10 (- 19990)"
proof -
  have two: "2 \<le> length (clean scenario_wide_series)" by (simp add: clean_scenario_wide)
  have mx: "Max (set (map year (clean scenario_wide_series))) = 2002"
    by (simp add: clean_scenario_wide)
  have xs: "map year (clean scenario_wide_series) = [2000, 2002]"
    and ys: "List.map_filter val (clean scenario_wide_series) = [10, 30]"
    by (simp_all add: clean_scenario_wide List.map_filter_simps)
  have pf: "lsq_fit (map year (clean scenario_wide_series))
      (List.map_filter val (clean scenario_wide_series)) = (10, - 19990)"
    by (simp add: xs ys lsq_fit_scenario_wide)
  from C1_forecast_ten_years [OF polyfit_ok_lsq_fit two]
  obtain recs where T: "forecast lsq_fit (clean scenario_wide_series) = Inr recs \<and> length recs = 10 \<and>
     map fst recs = [py_int (Max (set (map year (clean scenario_wide_series)))) + 1..
                     py_int (Max (set (map year (clean scenario_wide_series)))) + 10] \<and>
     least_squares (map year (clean scenario_wide_series)) (List.map_filter val (clean scenario_wide_series))
       (fst (lsq_fit (map year (clean scenario_wide_series)) (List.map_filter val (clean scenario_wide_series))))
       (snd (lsq_fit (map year (clean scenario_wide_series)) (List.map_filter val (clean scenario_wide_series)))) \<and>
     list_all (\<lambda>(fy, p). p = fst (lsq_fit (map year (clean scenario_wide_series))
                                   (List.map_filter val (clean scenario_wide_series))) * real_of_int fy
                              + snd (lsq_fit (map year (clean scenario_wide_series))
                                   (List.map_filter val (clean scenario_wide_series)))) recs \<and>
     (Max (set (map year (clean scenario_wide_series))) \<in> \<int> \<longrightarrow>
        real_of_int (fst (hd recs)) = Max (set (map year (clean scenario_wide_series))) + 1)" ..
  from T have yrs: "map fst recs = [2003..2012]" unfolding mx by (simp add: py_int_def)
  from T have lsq: "least_squares [2000, 2002] [10, 30] 10 (- 19990)"
    unfolding pf unfolding xs ys by simp
  from T have "list_all (\<lambda>(fy, p). p = 10 * real_of_int fy - 19990) recs"
    unfolding pf by simp
  then have "map snd recs = map (\<lambda>fy. 10 * real_of_int fy - 19990) (map fst recs)"
    by (induction recs) auto
  then have vals: "map snd recs = map snd scenario_wide_forecast"
    unfolding yrs upto_2003_2012 by (simp add: scenario_wide_forecast_def)
  from yrs have "map fst recs = map fst scenario_wide_forecast"
    unfolding upto_2003_2012 by (simp add: scenario_wide_forecast_def)
  with vals have "recs = scenario_wide_forecast" by (metis zip_map_fst_snd)
  with T two yrs lsq polyfit_ok_lsq_fit show ?thesis by simp
qed




section \<open>Claims about the reshaper\<close>

text \<open>
  Claim C3, as stated: the final LongSeries of both branches is sorted ascending by Year,
  and rows of equal Year keep their original relative order.

  The second half does not follow from the code: line 80 calls \<open>sort_values("Year")\<close> with
  the default algorithm, quicksort, which is not stable.  On the Long table of four rows
  with the years 2001, 2001, 2000, 2000 and the range 2000 to 2001, which is the whole
  slider, the sorting network returns the positions 3, 2, 1, 0: the LongSeries ascends by
  Year, and both pairs of rows of one year come out in reverse row order.
\<close>

theorem C3_ties_counterexample:
  "validate tied_long = Inr () \<and>
   year_bounds digits_parser tied_long = Inr (2000, 2001) \<and>
   slider_allows (2000, 2001) (2000, 2001) \<and>
   argsort_ok vector_argsort \<and>
   reshape digits_parser vector_argsort tied_long (sel_A (2000, 2001)) = Inr tied_series_network \<and>
   map idx tied_series_network = [3, 2, 1, 0] \<and>
   \<not> (sorted (map year tied_series_network) \<and> ties_in_row_order tied_series_network)"
proof (intro conjI)
  show "validate tied_long = Inr ()" by (simp add: tied_long_def long_table_valid)
  show "year_bounds digits_parser tied_long = Inr (2000, 2001)" by (rule year_bounds_tied)
  show "slider_allows (2000, 2001) (2000, 2001)" by (rule slider_examples)
  show "argsort_ok vector_argsort" by (rule argsort_ok_vector)
  show "reshape digits_parser vector_argsort tied_long (sel_A (2000, 2001)) =
      Inr tied_series_network"
    by (rule reshape_tied_long_network)
  show "map idx tied_series_network = [3, 2, 1, 0]" by (simp add: tied_series_network_def)
  show "\<not> (sorted (map year tied_series_network) \<and> ties_in_row_order tied_series_network)"
    by (simp add: tied_series_network_not_in_row_order)
qed

text \<open>
  Claim C3, amended: the final LongSeries of both branches is sorted ascending
  (non-decreasing) by Year and holds exactly the rows of the frame whose Year is not
  missing; rows of equal Year keep their original relative order when the library's sort
  is a stable one, which the default of \<open>sort_values\<close> does not promise.
\<close>

theorem C3_long_series_sorted:
  assumes "argsort_ok asrt" and "reshape pn asrt t sel = Inr ls"
  shows "sorted (map year ls) \<and>
         (\<exists>fr. reshape_frame pn t sel = Inr fr \<and> mset ls = mset (dropna_year fr)) \<and>
         (argsort_stable asrt \<longrightarrow> ties_in_row_order ls)"
proof -
  from assms(2) obtain fr where fr: "reshape_frame pn t sel = Inr fr"
    and ls: "ls = sort_values asrt (dropna_year fr)"
    by (auto simp: reshape_def split: sum.splits)
  from ls assms(1) have "sorted (map year ls)" by (simp add: sort_values_sorted)
  moreover from ls assms(1) have "mset ls = mset (dropna_year fr)" by (simp add: sort_values_mset)
  moreover have "ties_in_row_order ls" if "argsort_stable asrt"
    unfolding ls
    using assms(1) that dropna_year_idx_increasing [OF reshape_frame_idx_increasing [OF fr]]
    by (rule sort_values_ties)
  ultimately show ?thesis using fr by blast
qed

theorem C3_long_series_sorted_witness:
  "argsort_ok stable_argsort \<and> argsort_stable stable_argsort \<and>
   reshape digits_parser stable_argsort tied_long (sel_A (2000, 2001)) = Inr tied_series \<and>
   sorted (map year tied_series) \<and>
   (\<exists>fr. reshape_frame digits_parser tied_long (sel_A (2000, 2001)) = Inr fr \<and>
         mset tied_series = mset (dropna_year fr)) \<and>
   ties_in_row_order tied_series"
  using C3_long_series_sorted [OF argsort_ok_stable reshape_tied_long_stable]
    argsort_ok_stable argsort_stable_stable reshape_tied_long_stable by blast

text \<open>
  The Long branch of the reshaper (lines 75 to 80) on cells that do not parse: a row whose
  Year cell does not parse is dropped from the LongSeries, and a selected row whose Year
  parses into the range but whose Value cell does not parse is kept with its Value missing;
  the LongSeries has one record for each selected row whose Year parses into the range; a
  Long input whose selected Year cells are 2000, abc, 2002 (read as such by the parser, the
  range covering them) yields exactly 2 rows; and these lines return a LongSeries, never an
  error.
\<close>

lemma long_branch_coercion:
  assumes nw: "\<not> is_wide (columns t)" and a: "argsort_ok asrt"
  shows "\<exists>ls. reshape pn asrt t sel = Inr ls \<and>
     (\<forall>i < length (rows t). to_numeric pn ((rows t ! i) ''Year'') = None \<longrightarrow> i \<notin> idx ` set ls) \<and>
     (\<forall>(i, r) \<in> set (sub t sel).
        in_range (yr sel) (to_numeric pn (r ''Year'')) \<longrightarrow> to_numeric pn (r ''Value'') = None \<longrightarrow>
        (\<exists>q \<in> set ls. idx q = i \<and> Some (year q) = to_numeric pn (r ''Year'') \<and> val q = None)) \<and>
     length ls = length (filter (\<lambda>(i, r). in_range (yr sel) (to_numeric pn (r ''Year''))) (sub t sel)) \<and>
     (map (\<lambda>(i, r). r ''Year'') (sub t sel) = [CStr ''2000'', CStr ''abc'', CStr ''2002''] \<longrightarrow>
        pn ''2000'' = Some 2000 \<longrightarrow> pn ''abc'' = None \<longrightarrow> pn ''2002'' = Some 2002 \<longrightarrow>
        fst (yr sel) \<le> 2000 \<longrightarrow> 2002 \<le> snd (yr sel) \<longrightarrow> length ls = 2)"
proof -
  let ?P = "\<lambda>(i, r). in_range (yr sel) (to_numeric pn (r ''Year''))"
  let ?fr = "long_frame pn t sel"
  let ?ls = "sort_values asrt (dropna_year ?fr)"
  have r: "reshape pn asrt t sel = Inr ?ls" by (rule reshape_long [OF nw])
  have set_ls: "set ?ls = set (dropna_year ?fr)" using a by (rule sort_values_set)
  have dropped: "i \<notin> idx ` set ?ls"
    if i: "i < length (rows t)" and n: "to_numeric pn ((rows t ! i) ''Year'') = None" for i
  proof
    assume "i \<in> idx ` set ?ls"
    then obtain q where "q \<in> set (dropna_year ?fr)" "idx q = i" using set_ls by auto
    then obtain q0 where q0: "q0 \<in> set ?fr" "idx q0 = i" "year q0 \<noteq> None"
      by (auto simp: dropna_year_set)
    then obtain j r where jr: "(j, r) \<in> set (sub t sel)" "q0 = long_row_at pn t (j, r)"
      by (auto simp: long_frame_alt)
    with q0 have "j = i" "to_numeric pn (r ''Year'') \<noteq> None" by (simp_all add: long_row_at_def)
    with sub_member [OF jr(1)] n show False by simp
  qed
  have kept: "\<exists>q \<in> set ?ls. idx q = i \<and> Some (year q) = to_numeric pn (r ''Year'') \<and> val q = None"
    if m: "(i, r) \<in> set (sub t sel)" and y: "in_range (yr sel) (to_numeric pn (r ''Year''))"
      and v: "to_numeric pn (r ''Value'') = None" for i r
  proof -
    from y obtain x where x: "to_numeric pn (r ''Year'') = Some x" by (auto simp: in_range_def split: option.splits)
    from m y have "long_row_at pn t (i, r) \<in> set ?fr" by (force simp: long_frame_alt)
    with x have "\<lparr>idx = i, year = x, val = to_numeric pn (r ''Value''),
        ids = ids (long_row_at pn t (i, r))\<rparr> \<in> set (dropna_year ?fr)"
      by (force simp: dropna_year_set long_row_at_def)
    with set_ls v x show ?thesis by force
  qed
  have len: "length ?ls = length (filter ?P (sub t sel))"
  proof -
    have "length ?ls = length (dropna_year ?fr)" using a by (rule sort_values_length)
    also have "\<dots> = length ?fr"
      by (rule dropna_year_keeps_all) (rule long_frame_years)
    also have "\<dots> = length (filter ?P (sub t sel))" by (simp add: long_frame_alt)
    finally show ?thesis .
  qed
  have scen: "length ?ls = 2"
    if ys: "map (\<lambda>(i, r). r ''Year'') (sub t sel) = [CStr ''2000'', CStr ''abc'', CStr ''2002'']"
      and p: "pn ''2000'' = Some 2000" "pn ''abc'' = None" "pn ''2002'' = Some 2002"
      and rg: "fst (yr sel) \<le> 2000" "2002 \<le> snd (yr sel)"
  proof -
    have "length (filter ?P (sub t sel)) =
        length (filter (\<lambda>c. in_range (yr sel) (to_numeric pn c)) (map (\<lambda>(i, r). r ''Year'') (sub t sel)))"
      unfolding filter_map length_map
      by (rule arg_cong [where f = length], rule filter_cong) (auto simp: comp_def)
    also have "\<dots> = 2" using p rg unfolding ys by (simp add: in_range_def to_numeric_def)
    finally show ?thesis using len by simp
  qed
  show ?thesis
  proof (intro exI conjI)
    show "reshape pn asrt t sel = Inr ?ls" by (rule r)
    show "\<forall>i < length (rows t). to_numeric pn ((rows t ! i) ''Year'') = None \<longrightarrow> i \<notin> idx ` set ?ls"
      using dropped by blast
    show "\<forall>(i, r) \<in> set (sub t sel).
        in_range (yr sel) (to_numeric pn (r ''Year'')) \<longrightarrow> to_numeric pn (r ''Value'') = None \<longrightarrow>
        (\<exists>q \<in> set ?ls. idx q = i \<and> Some (year q) = to_numeric pn (r ''Year'') \<and> val q = None)"
      using kept by blast
    show "length ?ls = length (filter ?P (sub t sel))" by (rule len)
    show "map (\<lambda>(i, r). r ''Year'') (sub t sel) = [CStr ''2000'', CStr ''abc'', CStr ''2002''] \<longrightarrow>
        pn ''2000'' = Some 2000 \<longrightarrow> pn ''abc'' = None \<longrightarrow> pn ''2002'' = Some 2002 \<longrightarrow>
        fst (yr sel) \<le> 2000 \<longrightarrow> 2002 \<le> snd (yr sel) \<longrightarrow> length ?ls = 2"
      using scen by blast
  qed
qed

lemma long_branch_scenario:
  "\<not> is_wide (columns scenario_long) \<and> argsort_ok stable_argsort \<and>
   (\<exists>ls. reshape digits_parser stable_argsort scenario_long (sel_A (2000, 2002)) = Inr ls \<and>
      1 \<notin> idx ` set ls \<and> (\<exists>q \<in> set ls. idx q = 2 \<and> year q = 2002 \<and> val q = None) \<and>
      length ls = 2)"
proof -
  let ?sel = "sel_A (2000, 2002)"
  have nw: "\<not> is_wide (columns scenario_long)"
    by (simp add: scenario_long_def long_table_not_wide)
  from long_branch_coercion [OF nw argsort_ok_stable, of digits_parser ?sel]
  obtain ls where T: "reshape digits_parser stable_argsort scenario_long ?sel = Inr ls \<and>
     (\<forall>i < length (rows scenario_long).
        to_numeric digits_parser ((rows scenario_long ! i) ''Year'') = None \<longrightarrow> i \<notin> idx ` set ls) \<and>
     (\<forall>(i, r) \<in> set (sub scenario_long ?sel).
        in_range (yr ?sel) (to_numeric digits_parser (r ''Year'')) \<longrightarrow>
        to_numeric digits_parser (r ''Value'') = None \<longrightarrow>
        (\<exists>q \<in> set ls. idx q = i \<and> Some (year q) = to_numeric digits_parser (r ''Year'') \<and> val q = None)) \<and>
     length ls = length (filter (\<lambda>(i, r). in_range (yr ?sel) (to_numeric digits_parser (r ''Year'')))
        (sub scenario_long ?sel)) \<and>
     (map (\<lambda>(i, r). r ''Year'') (sub scenario_long ?sel) = [CStr ''2000'', CStr ''abc'', CStr ''2002''] \<longrightarrow>
        digits_parser ''2000'' = Some 2000 \<longrightarrow> digits_parser ''abc'' = None \<longrightarrow>
        digits_parser ''2002'' = Some 2002 \<longrightarrow>
        fst (yr ?sel) \<le> 2000 \<longrightarrow> 2002 \<le> snd (yr ?sel) \<longrightarrow> length ls = 2)" ..
  note ls = T [THEN conjunct1]
  note dropped = T [THEN conjunct2, THEN conjunct1]
  note kept = T [THEN conjunct2, THEN conjunct2, THEN conjunct1]
  note scen = T [THEN conjunct2, THEN conjunct2, THEN conjunct2, THEN conjunct2]
  have "1 < length (rows scenario_long) \<and>
      to_numeric digits_parser ((rows scenario_long ! 1) ''Year'') = None"
    by (simp add: scenario_long_def long_table_def long_row_of_cells to_numeric_def parser_eval)
  with dropped have d: "1 \<notin> idx ` set ls" by blast
  have "(2, long_row_of (CStr ''2002'') (CStr ''n/a'')) \<in> set (sub scenario_long ?sel)"
    by (simp add: sub_scenario_long)
  with kept have k: "\<exists>q \<in> set ls. idx q = 2 \<and> year q = 2002 \<and> val q = None"
    by (fastforce simp: long_row_of_cells to_numeric_def parser_eval in_range_def sel_A_fields)
  from scen have n: "length ls = 2"
    by (simp add: sub_scenario_long long_row_of_cells parser_eval sel_A_fields)
  from nw argsort_ok_stable ls d k n show ?thesis by blast
qed

text \<open>
  Claim C6, on the code.  The spec has every cell that does not parse become a missing
  value, never an error.  Lines 75 to 80 do so (lemma \<open>long_branch_coercion\<close>), but the run
  does not always reach them: line 49 sets up the slider of a Long table with \<open>int\<close> of the
  least coerced Year, and when no Year cell of the table parses that minimum is NaN and
  \<open>int\<close> raises.  The Long table of two rows with the Year cells abc and n/a is valid, both
  Years coerce to missing, and the run ends in that error.
\<close>

theorem C6_unparsed_years_raise:
  "\<not> is_wide (columns unparsed_long) \<and>
   validate unparsed_long = Inr () \<and>
   map (\<lambda>r. to_numeric digits_parser (r ''Year'')) (rows unparsed_long) = [None, None] \<and>
   year_bounds digits_parser unparsed_long = Inl NaNYearError"
proof (intro conjI)
  show "\<not> is_wide (columns unparsed_long)" by (simp add: unparsed_long_def long_table_not_wide)
  show "validate unparsed_long = Inr ()" by (simp add: unparsed_long_def long_table_valid)
  show "map (\<lambda>r. to_numeric digits_parser (r ''Year'')) (rows unparsed_long) = [None, None]"
    by (simp add: unparsed_long_def long_table_def long_row_of_cells to_numeric_def parser_eval)
  show "year_bounds digits_parser unparsed_long = Inl NaNYearError" by (rule year_bounds_unparsed)
qed

text \<open>
  Claim C7, on the code.  The spec's contract selects every year column whose integer
  value lies in the range.  Line 61 instead looks up \<open>str(y)\<close> for each \<open>y\<close> of the range, so
  a year column that line 17 recognises through \<open>strip()\<close> but that is not written as the
  plain numeral is never pivoted: with the header
  \<open>Country Name, Indicator Name, 2000, " 2001"\<close> and the range 2000 to 2001, which is the
  whole slider, both year columns are in the range and only the first is selected; the
  LongSeries has the record of 2000 and none of 2001.  (Lemma
  \<open>selected_year_cols_canonical\<close> is the case where the two agree.)
\<close>

theorem C7_padded_year_column_missed:
  "validate padded_table = Inr () \<and>
   year_bounds digits_parser padded_table = Inr (2000, 2001) \<and>
   slider_allows (2000, 2001) (2000, 2001) \<and>
   year_cols (columns padded_table) = [''2000'', '' 2001''] \<and>
   spec_selected_year_cols (2000, 2001) (columns padded_table) = [''2000'', '' 2001''] \<and>
   selected_year_cols (2000, 2001) (columns padded_table) = [''2000''] \<and>
   reshape digits_parser stable_argsort padded_table (sel_A (2000, 2001)) = Inr padded_series"
proof (intro conjI)
  show "validate padded_table = Inr ()" by (rule validate_padded)
  show "year_bounds digits_parser padded_table = Inr (2000, 2001)" by (rule year_bounds_padded)
  show "slider_allows (2000, 2001) (2000, 2001)" by (rule slider_examples)
  show "year_cols (columns padded_table) = [''2000'', '' 2001'']"
    by (simp add: columns_padded year_cols_padded)
  show "spec_selected_year_cols (2000, 2001) (columns padded_table) = [''2000'', '' 2001'']"
    by (simp add: columns_padded spec_selected_year_cols_def year_cols_padded year_col_int_2000
        year_col_int_padded_2001)
  show "selected_year_cols (2000, 2001) (columns padded_table) = [''2000'']"
    by (simp add: columns_padded selected_padded)
  show "reshape digits_parser stable_argsort padded_table (sel_A (2000, 2001)) = Inr padded_series"
    by (rule reshape_padded)
qed

text \<open>
  Claim C8.  Running load, validation, filter and reshape a second time, on the session
  that the first run left behind and with the file system unchanged, gives the same
  result as the first run: the same LongSeries, or the same error.
\<close>

theorem C8_reshape_rerun_identical:
  "fst (run_reshape fs pn asrt sel (snd (run_reshape fs pn asrt sel s))) =
   fst (run_reshape fs pn asrt sel s)"
  by (auto simp: run_reshape_def load_raw_def split: option.splits sum.splits prod.splits)

theorem C8_rerun_witness:
  "fst (run_reshape one_file digits_parser stable_argsort (sel_A (2000, 2002)) cold) = Inr scenario_long_series \<and>
   fst (run_reshape one_file digits_parser stable_argsort (sel_A (2000, 2002))
         (snd (run_reshape one_file digits_parser stable_argsort (sel_A (2000, 2002)) cold))) =
     Inr scenario_long_series"
proof -
  have "fst (run_reshape one_file digits_parser stable_argsort (sel_A (2000, 2002)) cold) =
      Inr scenario_long_series"
    by (simp add: run_reshape_def load_raw_def cold_def one_file_def validate_scenario_long
        reshape_scenario_long)
  with C8_reshape_rerun_identical [of one_file digits_parser stable_argsort "sel_A (2000, 2002)" cold]
  show ?thesis by simp
qed

text \<open>
  Claim C10.  In the Wide branch, for a selection that the slider can give (its lower end
  is not negative, see \<open>wide_slider_nonneg\<close>) and a parser that reads numerals, every record
  of the pivot has a Year that is the number of a selected all-digit column name, so no
  Year is missing, \<open>dropna\<close> removes no record, and the size of the LongSeries is the number
  of rows of the selection times the number of selected year columns.
\<close>

theorem C10_wide_branch_drops_nothing:
  assumes w: "is_wide (columns t)" and pn: "numeral_parser pn" and a: "argsort_ok asrt"
    and r0: "0 \<le> fst (yr sel)" and ls: "reshape pn asrt t sel = Inr ls"
  shows "\<exists>fr. reshape_frame pn t sel = Inr fr \<and>
           list_all (\<lambda>q. year q \<noteq> None) fr \<and>
           length (dropna_year fr) = length fr \<and>
           length ls = length (sub t sel) * length (selected_year_cols (yr sel) (columns t)) \<and>
           list_all (\<lambda>q. \<exists>c \<in> set (selected_year_cols (yr sel) (columns t)).
                         isdigit c \<and> pn c = Some (year q)) ls"
proof -
  let ?vv = "selected_year_cols (yr sel) (columns t)"
  let ?fr = "wide_frame pn t sel ?vv"
  from reshape_wide [OF w ls] have fr: "reshape_frame pn t sel = Inr ?fr"
    and l: "ls = sort_values asrt (dropna_year ?fr)" by simp_all
  have num: "isdigit c \<and> (\<exists>x. pn c = Some x)" if "c \<in> set ?vv" for c
  proof -
    from selected_nonneg_is_numeral [OF r0 that] obtain n where "c = str_nat n" by blast
    with pn show ?thesis by (simp add: numeral_parser_def isdigit_str_nat)
  qed
  have yrs: "list_all (\<lambda>q. year q \<noteq> None) ?fr"
    unfolding list_all_iff
  proof
    fix q assume "q \<in> set ?fr"
    from wide_frame_year [OF this] obtain v where "v \<in> set ?vv" "year q = pn v" by blast
    with num [of v] show "year q \<noteq> None" by auto
  qed
  then have keep: "length (dropna_year ?fr) = length ?fr" by (rule dropna_year_keeps_all)
  have len: "length ls = length (sub t sel) * length ?vv"
    using l keep a by (simp add: sort_values_length wide_frame_length)
  have src: "list_all (\<lambda>q. \<exists>c \<in> set ?vv. isdigit c \<and> pn c = Some (year q)) ls"
    unfolding list_all_iff
  proof
    fix q assume "q \<in> set ls"
    with l a have "q \<in> set (dropna_year ?fr)" by (simp add: sort_values_set)
    then obtain q0 where q0: "q0 \<in> set ?fr" "year q0 = Some (year q)"
      by (auto simp: dropna_year_set)
    from wide_frame_year [OF q0(1)] obtain v where v: "v \<in> set ?vv" "year q0 = pn v" by blast
    with q0 num [of v] show "\<exists>c \<in> set ?vv. isdigit c \<and> pn c = Some (year q)" by auto
  qed
  from fr yrs keep len src show ?thesis by blast
qed

theorem C10_wide_branch_witness:
  "is_wide (columns scenario_wide) \<and> numeral_parser digits_parser \<and> argsort_ok stable_argsort \<and>
   0 \<le> fst (yr (sel_A (2000, 2002))) \<and>
   reshape digits_parser stable_argsort scenario_wide (sel_A (2000, 2002)) = Inr scenario_wide_series \<and>
   (\<exists>fr. reshape_frame digits_parser scenario_wide (sel_A (2000, 2002)) = Inr fr \<and>
      length (dropna_year fr) = length fr) \<and>
   length scenario_wide_series = 1 * 3"
proof -
  let ?sel = "sel_A (2000, 2002)"
  have w: "is_wide (columns scenario_wide)" by (simp add: columns_scenario_wide wide_cols_wide)
  have r0: "0 \<le> fst (yr ?sel)" by (simp add: sel_A_fields)
  from C10_wide_branch_drops_nothing
    [OF w numeral_parser_digits_parser argsort_ok_stable r0 reshape_scenario_wide]
  obtain fr where T: "reshape_frame digits_parser scenario_wide ?sel = Inr fr \<and>
           list_all (\<lambda>q. year q \<noteq> None) fr \<and>
           length (dropna_year fr) = length fr \<and>
           length scenario_wide_series =
             length (sub scenario_wide ?sel) * length (selected_year_cols (yr ?sel) (columns scenario_wide)) \<and>
           list_all (\<lambda>q. \<exists>c \<in> set (selected_year_cols (yr ?sel) (columns scenario_wide)).
                         isdigit c \<and> digits_parser c = Some (year q)) scenario_wide_series" ..
  from T have "length scenario_wide_series = 1 * 3"
    by (simp add: sub_scenario_wide sel_A_fields columns_scenario_wide selected_wide_cols)
  with T w r0 numeral_parser_digits_parser argsort_ok_stable reshape_scenario_wide
  show ?thesis by blast
qed

section \<open>Claims about the analytics\<close>

text \<open>
  Claim C4.  When the clean series has fewer than two points, the run raises no error:
  the forecast panel holds the notice instead of a forecast, and the trend, the
  completeness table and the distribution are computed from the LongSeries as always.
\<close>

theorem C4_insufficient_data_notice:
  assumes "validate t = Inr ()" and "reshape pn asrt t sel = Inr ls" and "length (clean ls) < 2"
  shows "dashboard pn asrt pf t sel =
     Inr \<lparr>trend = ls, forecast_panel = Inl InsufficientDataNotice,
          completeness_panel = counts ls, distribution = List.map_filter val (clean ls)\<rparr>"
  using assms by (simp add: dashboard_def analytics_def forecast_def)

theorem C4_insufficient_data_witness:
  "validate scenario_long = Inr () \<and>
   reshape digits_parser stable_argsort scenario_long (sel_A (2000, 2002)) = Inr scenario_long_series \<and>
   length (clean scenario_long_series) < 2 \<and>
   dashboard digits_parser stable_argsort lsq_fit scenario_long (sel_A (2000, 2002)) =
     Inr \<lparr>trend = scenario_long_series, forecast_panel = Inl InsufficientDataNotice,
          completeness_panel = counts scenario_long_series, distribution = [10]\<rparr>"
proof -
  have one: "length (clean scenario_long_series) < 2" by (simp add: clean_scenario_long)
  have d: "List.map_filter val (clean scenario_long_series) = [10]"
    by (simp add: clean_scenario_long List.map_filter_simps)
  from C4_insufficient_data_notice [OF validate_scenario_long reshape_scenario_long one, of lsq_fit]
    validate_scenario_long reshape_scenario_long one d
  show ?thesis by simp
qed

text \<open>
  Claim C5.  For every Year group of the completeness table, the total is the number of
  records of that Year and missing is the number of them without a Value; the total is
  positive, so the division never has a zero divisor; the rate is missing / total (and
  would be 0 for a total of 0), and lies between 0 and 1.  The groups are the distinct
  years of the LongSeries, each once, in ascending order.
\<close>

theorem C5_completeness_rates:
  "list_all (\<lambda>g. n_total g = length (filter (\<lambda>q. year q = c_year g) ls) \<and>
       n_missing g = length (filter (\<lambda>q. year q = c_year g \<and> val q = None) ls) \<and>
       0 < n_total g \<and> n_missing g \<le> n_total g \<and>
       missing_rate g = (if n_total g > 0 then real (n_missing g) / real (n_total g) else 0) \<and>
       0 \<le> missing_rate g \<and> missing_rate g \<le> 1) (counts ls) \<and>
   set (map c_year (counts ls)) = set (map year ls) \<and>
   distinct (map c_year (counts ls)) \<and> sorted (map c_year (counts ls))"
proof -
  have "list_all (\<lambda>g. n_total g = length (filter (\<lambda>q. year q = c_year g) ls) \<and>
       n_missing g = length (filter (\<lambda>q. year q = c_year g \<and> val q = None) ls) \<and>
       0 < n_total g \<and> n_missing g \<le> n_total g \<and>
       missing_rate g = (if n_total g > 0 then real (n_missing g) / real (n_total g) else 0) \<and>
       0 \<le> missing_rate g \<and> missing_rate g \<le> 1) (counts ls)"
    unfolding list_all_iff
  proof
    fix g assume "g \<in> set (counts ls)"
    then obtain k where k: "k \<in> set (map year ls)" and g: "g = counts_row ls k"
      by (auto simp: counts_def)
    from counts_row_total_pos [OF k] counts_row_missing_le [of ls k] counts_row_rate_bounds [of ls k]
    show "n_total g = length (filter (\<lambda>q. year q = c_year g) ls) \<and>
       n_missing g = length (filter (\<lambda>q. year q = c_year g \<and> val q = None) ls) \<and>
       0 < n_total g \<and> n_missing g \<le> n_total g \<and>
       missing_rate g = (if n_total g > 0 then real (n_missing g) / real (n_total g) else 0) \<and>
       0 \<le> missing_rate g \<and> missing_rate g \<le> 1"
      unfolding g by (simp add: counts_row_fields)
  qed
  moreover have "set (map c_year (counts ls)) = set (map year ls)"
    by (simp only: counts_years) simp
  moreover have "distinct (map c_year (counts ls))" by (simp only: counts_years) simp
  moreover have "sorted (map c_year (counts ls))" by (simp only: counts_years) simp
  ultimately show ?thesis by blast
qed

theorem C5_completeness_witness:
  "counts scenario_wide_series = scenario_wide_counts \<and>
   list_all (\<lambda>g. 0 < n_total g \<and> 0 \<le> missing_rate g \<and> missing_rate g \<le> 1) scenario_wide_counts \<and>
   map c_year scenario_wide_counts = [2000, 2001, 2002]"
proof -
  from C5_completeness_rates [of scenario_wide_series, THEN conjunct1]
  have "list_all (\<lambda>g. 0 < n_total g \<and> 0 \<le> missing_rate g \<and> missing_rate g \<le> 1)
      (counts scenario_wide_series)"
    unfolding list_all_iff by blast
  then show ?thesis
    unfolding counts_scenario_wide by (simp add: scenario_wide_counts_def)
qed

end
